theory Spec2Isabelle
  imports Main "HOL-Library.Word"
begin

section \<open>AvatarMusicBox: the NFC music player of src/main.cpp\<close>

text \<open>
  A shallow embedding of the firmware's play-mode logic. The globals \<open>state\<close> and
  \<open>buttons\<close> are records; everything the firmware sends to a device (DFPlayer
  commands, the LED pin, the lines printed on \<open>Serial\<close>) is appended, in program
  order, to a trace; everything it reads from a device (\<open>millis()\<close>, the button pins,
  the PN532 reader) is a parameter of the function that reads it.

  The target is a 32-bit ESP32: \<open>unsigned long\<close> and \<open>int\<close> are 32 bits wide.
  \<open>unsigned long\<close> is \<open>32 word\<close> with its wrapping subtraction. \<open>int\<close> is
  \<open>32 word\<close> read in two's complement (\<open>sint\<close>, \<open><s\<close>, \<open>\<le>s\<close>); its addition
  wraps, which is what the target's adder does where C++ leaves signed overflow undefined.
\<close>

type_synonym u8 = "8 word"
type_synonym ulong = "32 word"
type_synonym cint = "32 word"

subsection \<open>Constants\<close>

definition DEFAULT_VOLUME :: cint where "DEFAULT_VOLUME = 20"
definition MAX_VOLUME :: cint where "MAX_VOLUME = 30"
definition MIN_VOLUME :: cint where "MIN_VOLUME = 0"
definition NFC_CHECK_INTERVAL :: ulong where "NFC_CHECK_INTERVAL = 200"
definition TAG_GRACE_PERIOD :: ulong where "TAG_GRACE_PERIOD = 2000"
definition BUTTON_DEBOUNCE_DELAY :: ulong where "BUTTON_DEBOUNCE_DELAY = 200"

subsection \<open>State\<close>

text \<open>\<open>struct SystemState\<close>; \<open>lastUID\<close> is the 7-byte array as a list.\<close>

record SystemState =
  lastUID :: "u8 list"
  lastUIDLength :: u8
  lastTagDetectionTime :: ulong
  lastNFCCheckTime :: ulong
  isTagPresent :: bool
  isSongPlaying :: bool
  currentTrack :: cint
  currentVolume :: cint

text \<open>
  \<open>struct ButtonState\<close>. \<open>lastUpState\<close> and \<open>lastDownState\<close> are C++ \<open>bool\<close>s
  initialised with \<open>HIGH\<close> (1, so \<open>true\<close>) and afterwards assigned \<open>upPressed\<close> and
  \<open>downPressed\<close>.
\<close>

record ButtonState =
  lastUpState :: bool
  lastDownState :: bool
  lastUpPress :: ulong
  lastDownPress :: ulong

datatype pin = LOW | HIGH

text \<open>
  The lines printed on \<open>Serial\<close>, by kind and with the values they print; the text and
  the rendering of numbers (\<open>uidToString\<close>, \<open>String(n)\<close>) are not modelled.
\<close>

datatype line =
    TagDetectedBanner
  | UidLine "u8 list"
  | PlayingLine cint
  | StoppingLine cint
  | VolumeLine cint
  | ReadFailedLine
  | NotProgrammedLine
  | WritePromptLine u8
  | ReadPromptLine
  | TimeoutLine
  | WrittenLine
  | WriteFailedLine
  | SongNumberLine cint
  | DFPlayerInitLine
  | DFPlayerErrorLine
  | DFPlayerOnlineLine

text \<open>What the firmware sends out: DFPlayer commands, the LED pin, Serial lines.\<close>

datatype event =
    DfPlay cint
  | DfStop
  | DfVolume u8
  | DfEqNormal
  | DfOutputSD
  | LedWrite pin
  | Serial line

record Sys =
  state :: SystemState
  buttons :: ButtonState
  trace :: "event list"

text \<open>The member initialisers of the two structs, and nothing sent yet.\<close>

definition initialState :: SystemState where
  "initialState =
     \<lparr> lastUID = [0, 0, 0, 0, 0, 0, 0],
       lastUIDLength = 0,
       lastTagDetectionTime = 0,
       lastNFCCheckTime = 0,
       isTagPresent = False,
       isSongPlaying = False,
       currentTrack = 0,
       currentVolume = DEFAULT_VOLUME \<rparr>"

definition initialButtons :: ButtonState where
  "initialButtons =
     \<lparr> lastUpState = True,
       lastDownState = True,
       lastUpPress = 0,
       lastDownPress = 0 \<rparr>"

definition initialSys :: Sys where
  "initialSys = \<lparr> state = initialState, buttons = initialButtons, trace = [] \<rparr>"

definition emit :: "event list \<Rightarrow> Sys \<Rightarrow> Sys" where
  "emit es w = w\<lparr>trace := trace w @ es\<rparr>"

subsection \<open>Utility functions\<close>

text \<open>
  \<open>uidsMatch\<close>: the loop \<open>for (uint8_t i = 0; i < length; i++)\<close> from index \<open>i\<close>
  on. The arrays are lists; the source reads at most index \<open>length - 1\<close> of each.
\<close>

function uidsMatch_from :: "u8 list \<Rightarrow> u8 list \<Rightarrow> u8 \<Rightarrow> u8 \<Rightarrow> bool" where
  "uidsMatch_from uid1 uid2 len i =
     (if i < len
      then (if uid1 ! unat i \<noteq> uid2 ! unat i then False
            else uidsMatch_from uid1 uid2 len (i + 1))
      else True)"
  by pat_completeness auto
termination
proof (relation "measure (\<lambda>(uid1, uid2, len, i). unat len - unat i)")
  show "wf (measure (\<lambda>(uid1, uid2, len, i). unat len - unat i))"
    by simp
next
  fix uid1 uid2 :: "u8 list" and len i :: u8
  assume lt: "i < len"
  have "unat i < unat len"
    using lt by (simp add: word_less_nat_alt)
  moreover have "unat len < 256"
    using unsigned_less [of len] by simp
  ultimately have "unat (i + 1) = unat i + 1"
    by (simp add: unat_word_ariths)
  moreover have "unat i < unat len"
    using lt by (simp add: word_less_nat_alt)
  ultimately show "((uid1, uid2, len, i + 1), (uid1, uid2, len, i))
        \<in> measure (\<lambda>(uid1, uid2, len, i). unat len - unat i)"
    by simp
qed

declare uidsMatch_from.simps [simp del]

definition uidsMatch :: "u8 list \<Rightarrow> u8 list \<Rightarrow> u8 \<Rightarrow> bool" where
  "uidsMatch uid1 uid2 len = uidsMatch_from uid1 uid2 len 0"

subsection \<open>Playback control\<close>

definition setLED :: "bool \<Rightarrow> Sys \<Rightarrow> Sys" where
  "setLED on w = emit [LedWrite (if on then HIGH else LOW)] w"

definition playSong :: "cint \<Rightarrow> Sys \<Rightarrow> Sys" where
  "playSong trackNumber w =
     (let w1 = emit [Serial (PlayingLine trackNumber)] w;
          w2 = emit [DfPlay trackNumber] w1;
          w3 = setLED True w2;
          w4 = w3\<lparr>state := (state w3)\<lparr>currentTrack := trackNumber\<rparr>\<rparr>
      in w4\<lparr>state := (state w4)\<lparr>isSongPlaying := True\<rparr>\<rparr>)"

definition stopSong :: "Sys \<Rightarrow> Sys" where
  "stopSong w =
     (if \<not> isSongPlaying (state w) then w
      else
        (let w1 = emit [Serial (StoppingLine (currentTrack (state w)))] w;
             w2 = emit [DfStop] w1;
             w3 = setLED False w2;
             w4 = w3\<lparr>state := (state w3)\<lparr>isSongPlaying := False\<rparr>\<rparr>
         in w4\<lparr>state := (state w4)\<lparr>currentTrack := 0\<rparr>\<rparr>))"

subsection \<open>Volume control\<close>

text \<open>
  \<open>adjustVolume\<close>. \<open>dfPlayer.volume\<close> takes a \<open>uint8_t\<close>: the \<open>int\<close> is
  converted by keeping its low byte (\<open>ucast\<close>).
\<close>

definition adjustVolume :: "cint \<Rightarrow> Sys \<Rightarrow> Sys" where
  "adjustVolume delta w =
     (let newVolume = currentVolume (state w) + delta;
          newVolume1 = (if newVolume <s MIN_VOLUME then MIN_VOLUME else newVolume);
          newVolume2 = (if MAX_VOLUME <s newVolume1 then MAX_VOLUME else newVolume1);
          w1 = w\<lparr>state := (state w)\<lparr>currentVolume := newVolume2\<rparr>\<rparr>;
          w2 = emit [DfVolume (ucast (currentVolume (state w1)))] w1
      in emit [Serial (VolumeLine (currentVolume (state w2)))] w2)"

text \<open>
  \<open>checkVolumeButtons\<close>; \<open>now\<close> is what \<open>millis()\<close> returns, \<open>upPin\<close> and
  \<open>downPin\<close> what \<open>digitalRead\<close> returns for the two buttons.
\<close>

definition checkVolumeButtons :: "ulong \<Rightarrow> pin \<Rightarrow> pin \<Rightarrow> Sys \<Rightarrow> Sys" where
  "checkVolumeButtons now upPin downPin w =
     (let upPressed = (upPin = LOW);
          downPressed = (downPin = LOW);
          w1 = (if upPressed \<and> \<not> lastUpState (buttons w)
                   \<and> BUTTON_DEBOUNCE_DELAY < now - lastUpPress (buttons w)
                then (let a = adjustVolume 1 w
                      in a\<lparr>buttons := (buttons a)\<lparr>lastUpPress := now\<rparr>\<rparr>)
                else w);
          w2 = w1\<lparr>buttons := (buttons w1)\<lparr>lastUpState := upPressed\<rparr>\<rparr>;
          w3 = (if downPressed \<and> \<not> lastDownState (buttons w2)
                   \<and> BUTTON_DEBOUNCE_DELAY < now - lastDownPress (buttons w2)
                then (let a = adjustVolume (- 1) w2
                      in a\<lparr>buttons := (buttons a)\<lparr>lastDownPress := now\<rparr>\<rparr>)
                else w2)
      in w3\<lparr>buttons := (buttons w3)\<lparr>lastDownState := downPressed\<rparr>\<rparr>)"

text \<open>
  \<open>initializeDFPlayer\<close>, the other place that sets the volume. \<open>beginOk\<close> is what
  \<open>dfPlayer.begin\<close> returns; when it fails the firmware spins in \<open>while (1)\<close> and
  never returns (\<open>None\<close>).
\<close>

definition initializeDFPlayer :: "bool \<Rightarrow> Sys \<Rightarrow> Sys option" where
  "initializeDFPlayer beginOk w =
     (let w1 = emit [Serial DFPlayerInitLine] w
      in if \<not> beginOk then None
         else Some (emit [DfVolume (ucast DEFAULT_VOLUME), DfEqNormal, DfOutputSD,
                          Serial DFPlayerOnlineLine] w1))"

subsection \<open>Tag reading and writing\<close>

text \<open>A 4-byte tag page, \<open>uint8_t data[4]\<close>.\<close>

type_synonym page = "u8 \<times> u8 \<times> u8 \<times> u8"

text \<open>
  \<open>readSongNumberFromTag\<close>; \<open>rd\<close> is the outcome of \<open>nfc.ntag2xx_ReadPage(4, data)\<close>:
  \<open>None\<close> when it fails, the page when it succeeds. The magic bytes are
  \<open>'S'\<close> = 0x53, \<open>'O'\<close> = 0x4F, \<open>'N'\<close> = 0x4E.
\<close>

definition readSongNumberFromTag :: "page option \<Rightarrow> Sys \<Rightarrow> cint \<times> Sys" where
  "readSongNumberFromTag rd w =
     (case rd of
        None \<Rightarrow> (- 1, emit [Serial ReadFailedLine] w)
      | Some (d0, d1, d2, d3) \<Rightarrow>
          (if d0 = 0x53 \<and> d1 = 0x4F \<and> d2 = 0x4E
           then (let songNum = (ucast d3 :: cint)
                 in if 1 \<le>s songNum \<and> songNum \<le>s 99 then (songNum, w)
                    else (- 1, emit [Serial NotProgrammedLine] w))
           else (- 1, emit [Serial NotProgrammedLine] w)))"

text \<open>
  The tag's memory, by page index.

  Modelled from the spec: the PN532 driver's \<open>ntag2xx_WritePage\<close> and
  \<open>ntag2xx_ReadPage\<close> are a library outside src/; section 6 gives them as
  \<open>writeTagPage(pageIndex, [u8;4]) -> Result<(), IoError>\<close> and
  \<open>readTagPage(pageIndex) -> Result<[u8;4], IoError>\<close>. A write that succeeds stores the
  page, one that fails leaves the memory as it was; a read that succeeds returns the
  stored page. Whether a call succeeds (\<open>ok\<close>) is given from outside.
\<close>

type_synonym tagmem = "nat \<Rightarrow> page"

definition ntag2xx_WritePage :: "nat \<Rightarrow> page \<Rightarrow> bool \<Rightarrow> tagmem \<Rightarrow> bool \<times> tagmem" where
  "ntag2xx_WritePage pg data ok mem = (if ok then (True, mem(pg := data)) else (False, mem))"

definition ntag2xx_ReadPage :: "nat \<Rightarrow> bool \<Rightarrow> tagmem \<Rightarrow> page option" where
  "ntag2xx_ReadPage pg ok mem = (if ok then Some (mem pg) else None)"

text \<open>
  The retry loop of \<open>writeSongNumber\<close> and \<open>readSongTag\<close>,
  \<open>for (int i = 0; i < 50; i++) { success = readPassiveTargetID(..); if (success) break; }\<close>,
  from attempt \<open>i\<close> on; \<open>detect i\<close> is what attempt \<open>i\<close> returns.
\<close>

function waitForTag :: "(nat \<Rightarrow> bool) \<Rightarrow> nat \<Rightarrow> bool" where
  "waitForTag detect i =
     (if i < 50 then (if detect i then True else waitForTag detect (i + 1)) else False)"
  by pat_completeness auto
termination
  by (relation "measure (\<lambda>(detect, i). 50 - i)") auto

declare waitForTag.simps [simp del]

definition writeSongNumber ::
  "u8 \<Rightarrow> (nat \<Rightarrow> bool) \<Rightarrow> bool \<Rightarrow> tagmem \<times> Sys \<Rightarrow> tagmem \<times> Sys" where
  "writeSongNumber songNum detect writeOk mw =
     (let (mem, w) = mw;
          w1 = emit [Serial (WritePromptLine songNum)] w;
          success = waitForTag detect 0
      in if \<not> success then (mem, emit [Serial TimeoutLine] w1)
         else
           (let data = (0x53, 0x4F, 0x4E, songNum);
                (success1, mem1) = ntag2xx_WritePage 4 data writeOk mem
            in if success1 then (mem1, emit [Serial WrittenLine] w1)
               else (mem1, emit [Serial WriteFailedLine] w1)))"

text \<open>\<open>readSongTag\<close>; \<open>rd\<close> is the outcome of its page read.\<close>

definition readSongTag :: "(nat \<Rightarrow> bool) \<Rightarrow> page option \<Rightarrow> Sys \<Rightarrow> Sys" where
  "readSongTag detect rd w =
     (let w1 = emit [Serial ReadPromptLine] w;
          success = waitForTag detect 0
      in if \<not> success then emit [Serial TimeoutLine] w1
         else
           (let (songNum, w2) = readSongNumberFromTag rd w1
            in if songNum \<noteq> - 1 then emit [Serial (SongNumberLine songNum)] w2 else w2))"

subsection \<open>Tag handling in play mode\<close>

text \<open>\<open>uidToString\<close>, as the bytes it renders.\<close>

definition uidToString :: "u8 list \<Rightarrow> u8 \<Rightarrow> u8 list" where
  "uidToString uid len = take (unat len) uid"

definition handleNewTag :: "u8 list \<Rightarrow> u8 list \<Rightarrow> u8 \<Rightarrow> page option \<Rightarrow> Sys \<Rightarrow> Sys" where
  "handleNewTag uid rawUID len rd w =
     (let w1 = emit [Serial TagDetectedBanner] w;
          w2 = emit [Serial (UidLine uid)] w1;
          (songNumber, w3) = readSongNumberFromTag rd w2
      in if songNumber = - 1 then stopSong w3
         else
           (let w4 = (if isSongPlaying (state w3) \<and> currentTrack (state w3) \<noteq> songNumber
                      then stopSong w3 else w3)
            in if \<not> isSongPlaying (state w4) then playSong songNumber w4 else w4))"

text \<open>\<open>memcpy(dst, src, n)\<close> on byte arrays.\<close>

definition memcpy :: "u8 list \<Rightarrow> u8 list \<Rightarrow> u8 \<Rightarrow> u8 list" where
  "memcpy dst src n = take (unat n) src @ drop (unat n) dst"

text \<open>The local \<open>isNewTag\<close> of \<open>checkNFCTag\<close>.\<close>

definition isNewTag :: "SystemState \<Rightarrow> u8 list \<Rightarrow> u8 \<Rightarrow> bool" where
  "isNewTag s uid uidLength = (\<not> isTagPresent s \<or> \<not> uidsMatch uid (lastUID s) uidLength)"

text \<open>
  \<open>checkNFCTag\<close>; \<open>tag\<close> is the outcome of \<open>nfc.readPassiveTargetID\<close> (\<open>None\<close> when no
  tag answers, else the 7-byte buffer \<open>uid\<close> and \<open>uidLength\<close>), \<open>rd\<close> the outcome of
  the page read in \<open>readSongNumberFromTag\<close>, \<open>now\<close> what \<open>millis()\<close> returns.
\<close>

definition checkNFCTag :: "(u8 list \<times> u8) option \<Rightarrow> page option \<Rightarrow> ulong \<Rightarrow> Sys \<Rightarrow> Sys" where
  "checkNFCTag tag rd now w =
     (case tag of
        Some (uid, uidLength) \<Rightarrow>
          (let w1 = w\<lparr>state := (state w)\<lparr>lastTagDetectionTime := now\<rparr>\<rparr>;
               w2 = (if isNewTag (state w1) uid uidLength
                     then (let uidString = uidToString uid uidLength;
                               h = handleNewTag uidString uid uidLength rd w1;
                               h1 = h\<lparr>state := (state h)
                                      \<lparr>lastUID := memcpy (lastUID (state h)) uid uidLength\<rparr>\<rparr>
                           in h1\<lparr>state := (state h1)\<lparr>lastUIDLength := uidLength\<rparr>\<rparr>)
                     else w1)
           in w2\<lparr>state := (state w2)\<lparr>isTagPresent := True\<rparr>\<rparr>)
      | None \<Rightarrow>
          (if isTagPresent (state w) then w\<lparr>state := (state w)\<lparr>isTagPresent := False\<rparr>\<rparr>
           else w))"

definition handleGracePeriod :: "ulong \<Rightarrow> Sys \<Rightarrow> Sys" where
  "handleGracePeriod now w =
     (if isTagPresent (state w) \<or> \<not> isSongPlaying (state w) then w
      else
        (let timeSinceRemoval = now - lastTagDetectionTime (state w)
         in if TAG_GRACE_PERIOD < timeSinceRemoval then stopSong w else w))"

subsection \<open>The main loop in play mode\<close>

text \<open>
  What one iteration of \<open>loop()\<close> reads, in the order it reads it: \<open>millis()\<close> in
  \<open>loop\<close>, then in \<open>checkVolumeButtons\<close> with the two pins, the reader and
  \<open>millis()\<close> in \<open>checkNFCTag\<close>, and \<open>millis()\<close> in \<open>handleGracePeriod\<close>.
\<close>

record LoopInput =
  loopNow :: ulong
  buttonsNow :: ulong
  upPin :: pin
  downPin :: pin
  nfcTag :: "(u8 list \<times> u8) option"
  nfcPage :: "page option"
  nfcNow :: ulong
  graceNow :: ulong

text \<open>
  The body of \<open>loop()\<close> under \<open>currentMode == PLAY_MODE\<close>. \<open>handleSerialCommands\<close>
  sets \<open>currentMode\<close> back to \<open>PLAY_MODE\<close> before it returns, so \<open>loop\<close> always
  finds that mode; the serial command parser itself is not modelled.
\<close>

definition loopPlay :: "LoopInput \<Rightarrow> Sys \<Rightarrow> Sys" where
  "loopPlay i w =
     (let now = loopNow i;
          w1 = checkVolumeButtons (buttonsNow i) (upPin i) (downPin i) w;
          w2 = (if NFC_CHECK_INTERVAL \<le> now - lastNFCCheckTime (state w1)
                then (let c = checkNFCTag (nfcTag i) (nfcPage i) (nfcNow i) w1
                      in c\<lparr>state := (state c)\<lparr>lastNFCCheckTime := now\<rparr>\<rparr>)
                else w1)
      in handleGracePeriod (graceNow i) w2)"

text \<open>A run of the loop over a list of inputs.\<close>

fun runLoop :: "LoopInput list \<Rightarrow> Sys \<Rightarrow> Sys" where
  "runLoop [] w = w"
| "runLoop (i # is) w = runLoop is (loopPlay i w)"

subsection \<open>Observations and test drivers\<close>

text \<open>The commands sent to the hardware: the trace without its Serial lines.\<close>

fun isCommand :: "event \<Rightarrow> bool" where
  "isCommand (Serial l) = False"
| "isCommand e = True"

definition commands :: "event list \<Rightarrow> event list" where
  "commands tr = filter isCommand tr"

text \<open>How many stop commands a trace holds, and how many play commands.\<close>

definition stopCommands :: "event list \<Rightarrow> nat" where
  "stopCommands tr = length (filter (\<lambda>e. e = DfStop) tr)"

fun isPlay :: "event \<Rightarrow> bool" where
  "isPlay (DfPlay n) = True"
| "isPlay e = False"

definition playCommands :: "event list \<Rightarrow> nat" where
  "playCommands tr = length (filter isPlay tr)"

text \<open>
  How often \<open>handleNewTag\<close> ran: it prints its banner first thing, and nothing else
  prints it.
\<close>

definition handlerRuns :: "event list \<Rightarrow> nat" where
  "handlerRuns tr = length (filter (\<lambda>e. e = Serial TagDetectedBanner) tr)"

text \<open>The arguments of the volume-set commands of a trace, in order.\<close>

fun volumeCommands :: "event list \<Rightarrow> u8 list" where
  "volumeCommands [] = []"
| "volumeCommands (DfVolume v # es) = v # volumeCommands es"
| "volumeCommands (e # es) = volumeCommands es"

text \<open>A track is recorded exactly when a song is playing.\<close>

definition playbackInvariant :: "SystemState \<Rightarrow> bool" where
  "playbackInvariant s = (isSongPlaying s = (currentTrack s \<noteq> 0))"

text \<open>The volume level is between \<open>MIN_VOLUME\<close> and \<open>MAX_VOLUME\<close>.\<close>

definition volumeInRange :: "cint \<Rightarrow> bool" where
  "volumeInRange v = (MIN_VOLUME \<le>s v \<and> v \<le>s MAX_VOLUME)"

text \<open>A run of \<open>checkVolumeButtons\<close> over samples (time, up pin, down pin).\<close>

fun runButtons :: "(ulong \<times> pin \<times> pin) list \<Rightarrow> Sys \<Rightarrow> Sys" where
  "runButtons [] w = w"
| "runButtons ((now, up, down) # xs) w = runButtons xs (checkVolumeButtons now up down w)"

text \<open>
  One press of a button, as two samples: the button released at time \<open>fst p\<close>, then
  held down at time \<open>snd p\<close>; the other button stays released.
\<close>

definition upPress :: "ulong \<times> ulong \<Rightarrow> Sys \<Rightarrow> Sys" where
  "upPress p w = checkVolumeButtons (snd p) LOW HIGH (checkVolumeButtons (fst p) HIGH HIGH w)"

definition downPress :: "ulong \<times> ulong \<Rightarrow> Sys \<Rightarrow> Sys" where
  "downPress p w = checkVolumeButtons (snd p) HIGH LOW (checkVolumeButtons (fst p) HIGH HIGH w)"

fun upPresses :: "(ulong \<times> ulong) list \<Rightarrow> Sys \<Rightarrow> Sys" where
  "upPresses [] w = w"
| "upPresses (p # ps) w = upPresses ps (upPress p w)"

fun downPresses :: "(ulong \<times> ulong) list \<Rightarrow> Sys \<Rightarrow> Sys" where
  "downPresses [] w = w"
| "downPresses (p # ps) w = downPresses ps (downPress p w)"

text \<open>
  Each press of the list comes more than the debounce delay after the press before it
  (\<open>prev\<close> for the first), in the firmware's wrapping arithmetic.
\<close>

fun spaced :: "ulong \<Rightarrow> (ulong \<times> ulong) list \<Rightarrow> bool" where
  "spaced prev [] = True"
| "spaced prev (p # ps) = (BUTTON_DEBOUNCE_DELAY < snd p - prev \<and> spaced (snd p) ps)"

text \<open>
  The input of one loop iteration in which every \<open>millis()\<close> call returns \<open>t\<close>, both
  buttons are released, the reader answers \<open>tag\<close> and the page read answers \<open>pg\<close>.
\<close>

definition
      sampleInput :: "ulong \<Rightarrow> (u8 list \<times> u8) option \<Rightarrow> page option \<Rightarrow> LoopInput" where
  "sampleInput t tag pg =
     \<lparr> loopNow = t, buttonsNow = t, upPin = HIGH, downPin = HIGH,
       nfcTag = tag, nfcPage = pg, nfcNow = t, graceNow = t \<rparr>"

text \<open>
  A sample tag with a 7-byte UID, and the state after the first loop iteration that
  detects it (at 1000 ms, from the initial state) and reads the record of song 7 from it:
  the tag is present and track 7 is playing.
\<close>

definition exampleUid :: "u8 list" where
  "exampleUid = [0x04, 0xA1, 0xB2, 0xC3, 0xD4, 0xE5, 0x80]"

definition tagPlaying :: Sys where
  "tagPlaying =
     loopPlay (sampleInput 1000 (Some (exampleUid, 7)) (Some (0x53, 0x4F, 0x4E, 7))) initialSys"

section \<open>Basic facts\<close>

lemma state_emit [simp]: "state (emit es w) = state w"
  by (simp add: emit_def)

lemma buttons_emit [simp]: "buttons (emit es w) = buttons w"
  by (simp add: emit_def)

lemma trace_emit [simp]: "trace (emit es w) = trace w @ es"
  by (simp add: emit_def)

lemma sint_ucast_u8: "sint (ucast (d :: u8) :: cint) = uint d"
proof -
  have "uint d < 2 ^ 8" using unsigned_less [of d] by simp
  hence "uint d < 2 ^ 31" by simp
  moreover have "- (2 ^ 31) \<le> uint d" by (rule order_trans [of _ 0]) simp_all
  ultimately have "signed_take_bit 31 (uint d) = uint d"
    by (rule_tac signed_take_bit_int_eq_self)
  thus ?thesis by (simp add: signed_ucast_eq)
qed

lemma ucast_u8_neq_minus1: "(ucast (d::u8) :: cint) \<noteq> - 1"
proof
  assume "(ucast d :: cint) = - 1"
  hence "sint (ucast d :: cint) = sint (- 1 :: cint)" by simp
  hence "uint d = - 1" by (simp add: sint_ucast_u8)
  thus False using uint_nonnegative [of d] by simp
qed

lemma song_range:
  "(1 \<le>s (ucast (d::u8) :: cint) \<and> (ucast d :: cint) \<le>s 99) = (1 \<le> unat d \<and> unat d \<le> 99)"
proof -
  have a: "(1 \<le>s (ucast d :: cint)) = (1 \<le> uint d)"
    by (simp only: word_sle_eq sint_ucast_u8) simp
  have b: "((ucast d :: cint) \<le>s 99) = (uint d \<le> 99)"
    by (simp only: word_sle_eq sint_ucast_u8) simp
  have c: "uint d = int (unat d)"
    by (rule uint_nat)
  show ?thesis
    unfolding a b c by linarith
qed

lemma commands_append [simp]: "commands (a @ b) = commands a @ commands b"
  by (simp add: commands_def)
lemma stopCommands_append [simp]: "stopCommands (a @ b) = stopCommands a + stopCommands b"
  by (simp add: stopCommands_def)
lemma playCommands_append [simp]: "playCommands (a @ b) = playCommands a + playCommands b"
  by (simp add: playCommands_def)
lemma handlerRuns_append [simp]: "handlerRuns (a @ b) = handlerRuns a + handlerRuns b"
  by (simp add: handlerRuns_def)
lemma volumeCommands_append [simp]:
  "volumeCommands (a @ b) = volumeCommands a @ volumeCommands b"
  by (induction a rule: volumeCommands.induct) simp_all

lemma readSong_None:
  "readSongNumberFromTag None w = (- 1, emit [Serial ReadFailedLine] w)"
  by (simp add: readSongNumberFromTag_def)

lemma readSong_Some:
  "readSongNumberFromTag (Some (d0, d1, d2, d3)) w =
     (if d0 = 0x53 \<and> d1 = 0x4F \<and> d2 = 0x4E \<and> 1 \<le> unat d3 \<and> unat d3 \<le> 99
      then (ucast d3, w) else (- 1, emit [Serial NotProgrammedLine] w))"
  using song_range [of d3] by (simp add: readSongNumberFromTag_def Let_def)

lemma readSong_fst_indep:
  "fst (readSongNumberFromTag rd w) = fst (readSongNumberFromTag rd w')"
proof (cases rd)
  case None
  then show ?thesis by (simp add: readSong_None)
next
  case (Some pg)
  obtain d0 d1 d2 d3 where "pg = (d0, d1, d2, d3)" by (cases pg) auto
  with Some show ?thesis by (simp add: readSong_Some)
qed

lemma readSong_valid_snd:
  "fst (readSongNumberFromTag rd w) \<noteq> - 1 \<Longrightarrow> snd (readSongNumberFromTag rd w) = w"
proof (cases rd)
  case None
  assume "fst (readSongNumberFromTag rd w) \<noteq> - 1"
  with None show ?thesis by (simp add: readSong_None)
next
  case (Some pg)
  assume a: "fst (readSongNumberFromTag rd w) \<noteq> - 1"
  obtain d0 d1 d2 d3 where "pg = (d0, d1, d2, d3)" by (cases pg) auto
  with Some a show ?thesis by (simp add: readSong_Some split: if_splits)
qed

lemma readSong_invalid_snd:
  "fst (readSongNumberFromTag rd w) = - 1 \<Longrightarrow>
     snd (readSongNumberFromTag rd w)
       = emit [Serial (if rd = None then ReadFailedLine else NotProgrammedLine)] w"
proof (cases rd)
  case None
  then show ?thesis by (simp add: readSong_None)
next
  case (Some pg)
  assume a: "fst (readSongNumberFromTag rd w) = - 1"
  obtain d0 d1 d2 d3 where "pg = (d0, d1, d2, d3)" by (cases pg) auto
  with Some a show ?thesis
    by (cases "d0 = 0x53 \<and> d1 = 0x4F \<and> d2 = 0x4E \<and> 1 \<le> unat d3 \<and> unat d3 \<le> 99")
       (simp_all add: readSong_Some ucast_u8_neq_minus1)
qed

lemma readSong_valid_range:
  "fst (readSongNumberFromTag rd w) \<noteq> - 1 \<Longrightarrow>
     1 \<le>s fst (readSongNumberFromTag rd w) \<and> fst (readSongNumberFromTag rd w) \<le>s 99"
proof (cases rd)
  case None
  assume "fst (readSongNumberFromTag rd w) \<noteq> - 1"
  with None show ?thesis by (simp add: readSong_None)
next
  case (Some pg)
  assume a: "fst (readSongNumberFromTag rd w) \<noteq> - 1"
  obtain d0 d1 d2 d3 where "pg = (d0, d1, d2, d3)" by (cases pg) auto
  with Some a show ?thesis
    using song_range [of d3] by (simp add: readSong_Some split: if_splits)
qed

lemma readSong_invalid_iff:
  "(fst (readSongNumberFromTag rd w) = - 1) =
     (case rd of None \<Rightarrow> True
      | Some (d0, d1, d2, d3) \<Rightarrow>
          \<not> (d0 = 0x53 \<and> d1 = 0x4F \<and> d2 = 0x4E \<and> 1 \<le> unat d3 \<and> unat d3 \<le> 99))"
proof (cases rd)
  case None
  then show ?thesis by (simp add: readSong_None)
next
  case (Some pg)
  obtain d0 d1 d2 d3 where "pg = (d0, d1, d2, d3)" by (cases pg) auto
  with Some show ?thesis
    by (simp add: readSong_Some ucast_u8_neq_minus1)
qed

lemma readSong_valid_eq:
  "fst (readSongNumberFromTag rd w0) = n \<Longrightarrow> n \<noteq> - 1 \<Longrightarrow> readSongNumberFromTag rd w = (n, w)"
  using readSong_fst_indep [of rd w w0] readSong_valid_snd [of rd w]
  by (simp add: prod_eq_iff)

lemma readSong_invalid_eq:
  "fst (readSongNumberFromTag rd w0) = - 1 \<Longrightarrow>
     readSongNumberFromTag rd w
       = (- 1, emit [Serial (if rd = None then ReadFailedLine else NotProgrammedLine)] w)"
  using readSong_fst_indep [of rd w w0] readSong_invalid_snd [of rd w]
  by (simp add: prod_eq_iff)

lemma handleNewTag_same:
  assumes "isSongPlaying (state w)"
    and "fst (readSongNumberFromTag rd w) = currentTrack (state w)"
    and "currentTrack (state w) \<noteq> - 1"
  shows "handleNewTag uid rawUID len rd w = emit [Serial TagDetectedBanner, Serial (UidLine uid)] w"
proof -
  let ?w2 = "emit [Serial (UidLine uid)] (emit [Serial TagDetectedBanner] w)"
  have r: "readSongNumberFromTag rd ?w2 = (currentTrack (state w), ?w2)"
    using assms(2,3) by (rule readSong_valid_eq)
  have e: "?w2 = emit [Serial TagDetectedBanner, Serial (UidLine uid)] w"
    by (simp add: emit_def)
  have "handleNewTag uid rawUID len rd w = ?w2"
    using assms(1,3) by (simp add: handleNewTag_def Let_def r)
  thus ?thesis using e by simp
qed

lemma stopSong_playing:
  "isSongPlaying (state w) \<Longrightarrow>
     stopSong w = w\<lparr>trace := trace w @ [Serial (StoppingLine (currentTrack (state w))), DfStop, LedWrite LOW],
                    state := (state w)\<lparr>isSongPlaying := False, currentTrack := 0\<rparr>\<rparr>"
  by (simp add: stopSong_def Let_def setLED_def emit_def)

lemma stopSong_idle: "\<not> isSongPlaying (state w) \<Longrightarrow> stopSong w = w"
  by (simp add: stopSong_def)

lemma playSong_eq:
  "playSong n w = w\<lparr>trace := trace w @ [Serial (PlayingLine n), DfPlay n, LedWrite HIGH],
                    state := (state w)\<lparr>currentTrack := n, isSongPlaying := True\<rparr>\<rparr>"
  by (simp add: playSong_def Let_def setLED_def emit_def)

lemma handleNewTag_invalid:
  assumes "fst (readSongNumberFromTag rd w) = - 1"
  shows "handleNewTag uid rawUID len rd w =
           stopSong (emit [Serial TagDetectedBanner, Serial (UidLine uid),
                           Serial (if rd = None then ReadFailedLine else NotProgrammedLine)] w)"
proof -
  let ?w2 = "emit [Serial (UidLine uid)] (emit [Serial TagDetectedBanner] w)"
  have f: "fst (readSongNumberFromTag rd ?w2) = - 1"
    using assms readSong_fst_indep [of rd ?w2 w] by simp
  hence s: "snd (readSongNumberFromTag rd ?w2)
              = emit [Serial (if rd = None then ReadFailedLine else NotProgrammedLine)] ?w2"
    by (rule readSong_invalid_snd)
  have e: "emit [Serial (if rd = None then ReadFailedLine else NotProgrammedLine)] ?w2
      = emit [Serial TagDetectedBanner, Serial (UidLine uid),
                           Serial (if rd = None then ReadFailedLine else NotProgrammedLine)] w"
    by (simp add: emit_def)
  show ?thesis
    using f s by (simp add: handleNewTag_def Let_def split_beta e del: trace_emit)
qed

section \<open>The playback arbiter: \<open>handleNewTag\<close>\<close>

text \<open>
  Claim C4. When a song is playing and the new tag's record decodes to the track that is
  playing (a valid song number, so not the error value \<open>-1\<close>), \<open>handleNewTag\<close> sends
  no command at all, so neither a stop nor a play, and leaves \<open>state\<close> (with
  \<open>isSongPlaying\<close> and \<open>currentTrack\<close>) as it was; it only prints its two lines.
\<close>

theorem handleNewTag_same_track_noop:
  assumes "isSongPlaying (state w)"
    and "fst (readSongNumberFromTag rd w) = currentTrack (state w)"
    and "currentTrack (state w) \<noteq> - 1"
  shows "state (handleNewTag uid rawUID len rd w) = state w
       \<and> commands (trace (handleNewTag uid rawUID len rd w)) = commands (trace w)
       \<and> stopCommands (trace (handleNewTag uid rawUID len rd w)) = stopCommands (trace w)
       \<and> playCommands (trace (handleNewTag uid rawUID len rd w)) = playCommands (trace w)
       \<and> buttons (handleNewTag uid rawUID len rd w) = buttons w"
  unfolding handleNewTag_same [OF assms]
  by (simp add: commands_def stopCommands_def playCommands_def)

theorem handleNewTag_same_track_noop_witness:
  "isSongPlaying (state (playSong 7 initialSys))
   \<and> fst (readSongNumberFromTag (Some (0x53, 0x4F, 0x4E, 7)) (playSong 7 initialSys))
       = currentTrack (state (playSong 7 initialSys))
   \<and> currentTrack (state (playSong 7 initialSys)) \<noteq> - 1
   \<and> state (handleNewTag [] [] 0 (Some (0x53, 0x4F, 0x4E, 7)) (playSong 7 initialSys))
       = state (playSong 7 initialSys)
   \<and> stopCommands (trace (handleNewTag [] [] 0 (Some (0x53, 0x4F, 0x4E, 7)) (playSong 7 initialSys)))
       = stopCommands (trace (playSong 7 initialSys))
   \<and> playCommands (trace (handleNewTag [] [] 0 (Some (0x53, 0x4F, 0x4E, 7)) (playSong 7 initialSys)))
       = playCommands (trace (playSong 7 initialSys))"
proof -
  let ?w = "playSong 7 initialSys"
  have h1: "isSongPlaying (state ?w)" by (simp add: playSong_eq)
  have h2: "fst (readSongNumberFromTag (Some (0x53, 0x4F, 0x4E, 7)) ?w) = currentTrack (state ?w)"
    by (simp add: readSong_Some playSong_eq)
  have h3: "currentTrack (state ?w) \<noteq> - 1" by (simp add: playSong_eq)
  show ?thesis
    using h1 h2 h3 handleNewTag_same_track_noop [OF h1 h2 h3, of "[]" "[]" 0] by simp
qed

text \<open>
  Claim C5. When the page read fails, or the page has the wrong magic bytes or a song
  number outside 1..99, \<open>handleNewTag\<close> stops the song if one is playing (the stop
  command and the LED, \<open>isSongPlaying\<close> and \<open>currentTrack\<close> cleared); if none is
  playing it sends no command and leaves \<open>state\<close> as it was. It never sends a play
  command.
\<close>

theorem handleNewTag_invalid_record:
  assumes "case rd of None \<Rightarrow> True
      | Some (d0, d1, d2, d3) \<Rightarrow>
          \<not> (d0 = 0x53 \<and> d1 = 0x4F \<and> d2 = 0x4E \<and> 1 \<le> unat d3 \<and> unat d3 \<le> 99)"
  shows "(isSongPlaying (state w) \<longrightarrow>
            commands (trace (handleNewTag uid rawUID len rd w))
              = commands (trace w) @ [DfStop, LedWrite LOW]
          \<and> state (handleNewTag uid rawUID len rd w)
              = (state w)\<lparr>isSongPlaying := False, currentTrack := 0\<rparr>)
       \<and> (\<not> isSongPlaying (state w) \<longrightarrow>
            commands (trace (handleNewTag uid rawUID len rd w)) = commands (trace w)
          \<and> state (handleNewTag uid rawUID len rd w) = state w)
       \<and> playCommands (trace (handleNewTag uid rawUID len rd w)) = playCommands (trace w)
       \<and> buttons (handleNewTag uid rawUID len rd w) = buttons w"
proof -
  have "fst (readSongNumberFromTag rd w) = - 1"
    using assms by (simp add: readSong_invalid_iff)
  hence h: "handleNewTag uid rawUID len rd w =
           stopSong (emit [Serial TagDetectedBanner, Serial (UidLine uid),
                           Serial (if rd = None then ReadFailedLine else NotProgrammedLine)] w)"
    by (rule handleNewTag_invalid)
  show ?thesis
    unfolding h
    by (cases "isSongPlaying (state w)")
       (simp_all add: stopSong_playing stopSong_idle commands_def playCommands_def)
qed

theorem handleNewTag_invalid_record_witness:
  "isSongPlaying (state (playSong 7 initialSys))
   \<and> commands (trace (handleNewTag [] [] 0 None (playSong 7 initialSys)))
       = commands (trace (playSong 7 initialSys)) @ [DfStop, LedWrite LOW]
   \<and> \<not> isSongPlaying (state (handleNewTag [] [] 0 None (playSong 7 initialSys)))
   \<and> \<not> isSongPlaying (state initialSys)
   \<and> trace (handleNewTag [] [] 0 (Some (0x53, 0x4F, 0x4E, 100)) initialSys)
       = [Serial TagDetectedBanner, Serial (UidLine []), Serial NotProgrammedLine]
   \<and> state (handleNewTag [] [] 0 (Some (0x53, 0x4F, 0x4E, 100)) initialSys) = state initialSys"
proof -
  let ?w = "playSong 7 initialSys"
  have h1: "isSongPlaying (state ?w)" by (simp add: playSong_eq)
  have h2: "\<not> isSongPlaying (state initialSys)" by (simp add: initialSys_def initialState_def)
  have a: "case (None :: page option) of None \<Rightarrow> True
      | Some (d0, d1, d2, d3) \<Rightarrow>
          \<not> (d0 = 0x53 \<and> d1 = 0x4F \<and> d2 = 0x4E \<and> 1 \<le> unat d3 \<and> unat d3 \<le> 99)"
    by simp
  have b: "case Some (0x53, 0x4F, 0x4E, 100 :: u8) of None \<Rightarrow> True
      | Some (d0, d1, d2, d3) \<Rightarrow>
          \<not> (d0 = (0x53 :: u8) \<and> d1 = (0x4F :: u8) \<and> d2 = (0x4E :: u8) \<and> 1 \<le> unat d3 \<and> unat d3 \<le> 99)"
    by simp
  have t: "trace (handleNewTag [] [] 0 (Some (0x53, 0x4F, 0x4E, 100)) initialSys)
       = [Serial TagDetectedBanner, Serial (UidLine []), Serial NotProgrammedLine]"
    using h2 by (simp add: handleNewTag_def readSong_Some stopSong_idle Let_def initialSys_def)
  show ?thesis
    using h1 h2 t handleNewTag_invalid_record [OF a, of ?w "[]" "[]" 0] handleNewTag_invalid_record [OF b, of initialSys "[]" "[]" 0]
    by simp
qed

section \<open>Volume control and the buttons\<close>

lemma adjustVolume_eq:
  "adjustVolume delta w =
     (let newVolume = currentVolume (state w) + delta;
          newVolume1 = (if newVolume <s MIN_VOLUME then MIN_VOLUME else newVolume);
          newVolume2 = (if MAX_VOLUME <s newVolume1 then MAX_VOLUME else newVolume1)
      in w\<lparr>state := (state w)\<lparr>currentVolume := newVolume2\<rparr>,
            trace := trace w @ [DfVolume (ucast newVolume2), Serial (VolumeLine newVolume2)]\<rparr>)"
  by (simp add: adjustVolume_def Let_def emit_def)

lemma buttons_adjustVolume [simp]: "buttons (adjustVolume delta w) = buttons w"
  by (simp add: adjustVolume_eq Let_def)

lemma state_adjustVolume:
  "state (adjustVolume delta w)
     = (state w)\<lparr>currentVolume := currentVolume (state (adjustVolume delta w))\<rparr>"
  by (simp add: adjustVolume_eq Let_def)

lemma trace_adjustVolume:
  "trace (adjustVolume delta w)
     = trace w @ [DfVolume (ucast (currentVolume (state (adjustVolume delta w)))),
                  Serial (VolumeLine (currentVolume (state (adjustVolume delta w))))]"
  by (simp add: adjustVolume_eq Let_def)

lemma sint_adjustVolume:
  "sint (currentVolume (state (adjustVolume delta w)))
     = max 0 (min 30 (sint (currentVolume (state w) + delta)))"
proof -
  let ?nv = "currentVolume (state w) + delta"
  have s0: "sint (0 :: cint) = 0" and s30: "sint (30 :: cint) = 30" by simp_all
  show ?thesis
    unfolding adjustVolume_eq Let_def MIN_VOLUME_def MAX_VOLUME_def word_sless_alt
    by (cases "sint ?nv < 0"; cases "30 < sint ?nv") (simp_all add: s0 s30)
qed

lemma volumeInRange_iff: "volumeInRange v = (0 \<le> sint v \<and> sint v \<le> 30)"
  unfolding volumeInRange_def MIN_VOLUME_def MAX_VOLUME_def word_sle_eq by simp

lemma volumeInRange_adjustVolume:
  "volumeInRange (currentVolume (state (adjustVolume delta w)))"
  unfolding volumeInRange_iff sint_adjustVolume by simp

lemma sint_add_no_overflow:
  assumes "- (2 ^ 31) \<le> sint (a :: cint) + sint b" and "sint a + sint b < 2 ^ 31"
  shows "sint (a + b) = sint a + sint b"
proof -
  have "sint (a + b) = signed_take_bit 31 (sint a + sint b)"
    by (simp add: sint_word_ariths)
  also have "\<dots> = sint a + sint b"
    using assms by (rule_tac signed_take_bit_int_eq_self)
  finally show ?thesis .
qed

lemma ucast_in_range:
  assumes "0 \<le> sint (v :: cint)" and "sint v \<le> 30"
  shows "uint (ucast v :: u8) = sint v"
proof -
  have "uint v = take_bit 32 (sint v)"
    by (simp add: uint_sint)
  also have "\<dots> = sint v"
    using assms by (simp add: take_bit_int_eq_self)
  finally have u: "uint v = sint v" .
  have "uint (ucast v :: u8) = take_bit 8 (uint v)"
    by (simp add: unsigned_ucast_eq)
  also have "\<dots> = sint v"
    unfolding u using assms by (simp add: take_bit_int_eq_self)
  finally show ?thesis .
qed

lemma ucast_in_range_le:
  assumes "0 \<le> sint (v :: cint)" and "sint v \<le> 30"
  shows "(ucast v :: u8) \<le> 30"
proof -
  have "uint (ucast v :: u8) \<le> uint (30 :: u8)"
    using ucast_in_range [OF assms] assms by simp
  thus ?thesis by (simp only: word_le_def)
qed

lemma adjustVolume_buttons_update:
  "adjustVolume delta (w\<lparr>buttons := b\<rparr>) = (adjustVolume delta w)\<lparr>buttons := b\<rparr>"
  by (simp add: adjustVolume_eq Let_def)

lemma checkVolumeButtons_eq:
  "checkVolumeButtons now up down w =
     (let upFires = (up = LOW \<and> \<not> lastUpState (buttons w)
                      \<and> BUTTON_DEBOUNCE_DELAY < now - lastUpPress (buttons w));
          downFires = (down = LOW \<and> \<not> lastDownState (buttons w)
                      \<and> BUTTON_DEBOUNCE_DELAY < now - lastDownPress (buttons w));
          w1 = (if upFires then adjustVolume 1 w else w);
          w2 = (if downFires then adjustVolume (- 1) w1 else w1)
      in w2\<lparr>buttons := (buttons w)
            \<lparr> lastUpState := (up = LOW),
              lastDownState := (down = LOW),
              lastUpPress := (if upFires then now else lastUpPress (buttons w)),
              lastDownPress := (if downFires then now else lastDownPress (buttons w)) \<rparr>\<rparr>)"
  by (cases up; cases down; cases "lastUpState (buttons w)"; cases "lastDownState (buttons w)";
      cases "BUTTON_DEBOUNCE_DELAY < now - lastUpPress (buttons w)";
      cases "BUTTON_DEBOUNCE_DELAY < now - lastDownPress (buttons w)";
      simp add: checkVolumeButtons_def Let_def adjustVolume_buttons_update)

lemma volumeCommands_adjustVolume:
  "volumeCommands (trace (adjustVolume delta w))
     = volumeCommands (trace w) @ [ucast (currentVolume (state (adjustVolume delta w)))]"
  by (subst trace_adjustVolume) simp

lemma adjustVolume_at_int_max: "sint (currentVolume (state (adjustVolume 2147483647 initialSys))) = 0"
  unfolding sint_adjustVolume
  by (simp add: initialSys_def initialState_def DEFAULT_VOLUME_def)

lemma clamp_at_int_max: "max 0 (min 30 (sint (currentVolume (state initialSys)) + sint (2147483647 :: cint))) = 30"
  by (simp add: initialSys_def initialState_def DEFAULT_VOLUME_def)

lemma initialVolume: "volumeInRange (currentVolume initialState)"
  by (simp add: volumeInRange_iff initialState_def DEFAULT_VOLUME_def)

lemma initializeDFPlayer_volume:
  "initializeDFPlayer True w \<noteq> None
   \<and> volumeCommands (trace (the (initializeDFPlayer True w))) = volumeCommands (trace w) @ [20]"
  by (simp add: initializeDFPlayer_def Let_def DEFAULT_VOLUME_def)

lemma runButtons_quiet_up:
  "\<forall>x \<in> set xs. fst x - lastUpPress (buttons w) \<le> BUTTON_DEBOUNCE_DELAY \<and> snd (snd x) = HIGH \<Longrightarrow>
     state (runButtons xs w) = state w \<and> trace (runButtons xs w) = trace w
     \<and> lastUpPress (buttons (runButtons xs w)) = lastUpPress (buttons w)"
proof (induction xs arbitrary: w)
  case Nil
  show ?case by simp
next
  case (Cons x xs)
  obtain t u d where x: "x = (t, u, d)" by (cases x) auto
  let ?w1 = "checkVolumeButtons t u d w"
  from Cons.prems x have q: "\<not> BUTTON_DEBOUNCE_DELAY < t - lastUpPress (buttons w)" and dh: "d = HIGH"
    by (auto simp add: not_less)
  have s1: "state ?w1 = state w" and t1: "trace ?w1 = trace w"
    and l1: "lastUpPress (buttons ?w1) = lastUpPress (buttons w)"
    using q dh by (simp_all add: checkVolumeButtons_eq Let_def)
  have "\<forall>x \<in> set xs. fst x - lastUpPress (buttons ?w1) \<le> BUTTON_DEBOUNCE_DELAY \<and> snd (snd x) = HIGH"
    using Cons.prems l1 by simp
  from Cons.IH [OF this] show ?case
    using s1 t1 l1 x by simp
qed

lemma runButtons_quiet_down:
  "\<forall>x \<in> set xs. fst x - lastDownPress (buttons w) \<le> BUTTON_DEBOUNCE_DELAY \<and> fst (snd x) = HIGH \<Longrightarrow>
     state (runButtons xs w) = state w \<and> trace (runButtons xs w) = trace w
     \<and> lastDownPress (buttons (runButtons xs w)) = lastDownPress (buttons w)"
proof (induction xs arbitrary: w)
  case Nil
  show ?case by simp
next
  case (Cons x xs)
  obtain t u d where x: "x = (t, u, d)" by (cases x) auto
  let ?w1 = "checkVolumeButtons t u d w"
  from Cons.prems x have q: "\<not> BUTTON_DEBOUNCE_DELAY < t - lastDownPress (buttons w)" and dh: "u = HIGH"
    by (auto simp add: not_less)
  have s1: "state ?w1 = state w" and t1: "trace ?w1 = trace w"
    and l1: "lastDownPress (buttons ?w1) = lastDownPress (buttons w)"
    using q dh by (simp_all add: checkVolumeButtons_eq Let_def)
  have "\<forall>x \<in> set xs. fst x - lastDownPress (buttons ?w1) \<le> BUTTON_DEBOUNCE_DELAY \<and> fst (snd x) = HIGH"
    using Cons.prems l1 by simp
  from Cons.IH [OF this] show ?case
    using s1 t1 l1 x by simp
qed

lemma upPress_accepted:
  assumes "BUTTON_DEBOUNCE_DELAY < snd p - lastUpPress (buttons w)"
  shows "upPress p w = (adjustVolume 1 w)\<lparr>buttons := (buttons w)
            \<lparr>lastUpState := True, lastDownState := False, lastUpPress := snd p\<rparr>\<rparr>"
  using assms by (simp add: upPress_def checkVolumeButtons_eq Let_def adjustVolume_buttons_update)

lemma downPress_accepted:
  assumes "BUTTON_DEBOUNCE_DELAY < snd p - lastDownPress (buttons w)"
  shows "downPress p w = (adjustVolume (- 1) w)\<lparr>buttons := (buttons w)
            \<lparr>lastUpState := False, lastDownState := True, lastDownPress := snd p\<rparr>\<rparr>"
  using assms by (simp add: downPress_def checkVolumeButtons_eq Let_def adjustVolume_buttons_update)

lemma sint_adjustVolume_up:
  assumes "volumeInRange (currentVolume (state w))"
  shows "sint (currentVolume (state (adjustVolume 1 w))) = min 30 (sint (currentVolume (state w)) + 1)"
proof -
  have r: "0 \<le> sint (currentVolume (state w))" "sint (currentVolume (state w)) \<le> 30"
    using assms by (simp_all add: volumeInRange_iff)
  have "sint (currentVolume (state w) + 1) = sint (currentVolume (state w)) + sint (1 :: cint)"
    using r by (intro sint_add_no_overflow) simp_all
  thus ?thesis
    unfolding sint_adjustVolume using r by simp
qed

lemma sint_adjustVolume_down:
  assumes "volumeInRange (currentVolume (state w))"
  shows "sint (currentVolume (state (adjustVolume (- 1) w))) = max 0 (sint (currentVolume (state w)) - 1)"
proof -
  have r: "0 \<le> sint (currentVolume (state w))" "sint (currentVolume (state w)) \<le> 30"
    using assms by (simp_all add: volumeInRange_iff)
  have "sint (currentVolume (state w) + (- 1)) = sint (currentVolume (state w)) + sint (- 1 :: cint)"
    using r by (intro sint_add_no_overflow) simp_all
  thus ?thesis
    unfolding sint_adjustVolume using r by simp
qed

lemma sint_eq_30: "sint (v :: cint) = 30 \<Longrightarrow> v = 30"
proof -
  assume "sint v = 30"
  hence "word_of_int (sint v) = (word_of_int 30 :: cint)" by simp
  thus ?thesis by simp
qed

lemma sint_eq_0: "sint (v :: cint) = 0 \<Longrightarrow> v = 0"
proof -
  assume "sint v = 0"
  hence "word_of_int (sint v) = (word_of_int 0 :: cint)" by simp
  thus ?thesis by simp
qed

lemma upPresses_spaced:
  "spaced (lastUpPress (buttons w)) ps \<Longrightarrow> volumeInRange (currentVolume (state w)) \<Longrightarrow>
     sint (currentVolume (state (upPresses ps w)))
       = min 30 (sint (currentVolume (state w)) + int (length ps))
     \<and> length (volumeCommands (trace (upPresses ps w)))
       = length (volumeCommands (trace w)) + length ps
     \<and> (currentVolume (state w) = 30 \<longrightarrow>
          volumeCommands (trace (upPresses ps w))
            = volumeCommands (trace w) @ replicate (length ps) 30)"
proof (induction ps arbitrary: w)
  case Nil
  then show ?case by (simp add: volumeInRange_iff)
next
  case (Cons p ps)
  let ?a = "adjustVolume 1 w"
  let ?w1 = "upPress p w"
  have acc: "BUTTON_DEBOUNCE_DELAY < snd p - lastUpPress (buttons w)"
    and sp: "spaced (snd p) ps"
    using Cons.prems(1) by simp_all
  have w1: "?w1 = ?a\<lparr>buttons := (buttons w)
            \<lparr>lastUpState := True, lastDownState := False, lastUpPress := snd p\<rparr>\<rparr>"
    using acc by (rule upPress_accepted)
  have st: "state ?w1 = state ?a" and tr: "trace ?w1 = trace ?a"
    and lp: "lastUpPress (buttons ?w1) = snd p"
    unfolding w1 by simp_all
  have lvl: "sint (currentVolume (state ?w1)) = min 30 (sint (currentVolume (state w)) + 1)"
    unfolding st using Cons.prems(2) by (rule sint_adjustVolume_up)
  have rng: "volumeInRange (currentVolume (state ?w1))"
    unfolding st by (rule volumeInRange_adjustVolume)
  have sp1: "spaced (lastUpPress (buttons ?w1)) ps"
    unfolding lp by (rule sp)
  note ih = Cons.IH [OF sp1 rng]
  have r: "0 \<le> sint (currentVolume (state w))" "sint (currentVolume (state w)) \<le> 30"
    using Cons.prems(2) by (simp_all add: volumeInRange_iff)
  have vc: "volumeCommands (trace ?w1)
      = volumeCommands (trace w) @ [ucast (currentVolume (state ?w1))]"
    unfolding tr st by (rule volumeCommands_adjustVolume)
  have c1: "sint (currentVolume (state (upPresses (p # ps) w)))
       = min 30 (sint (currentVolume (state w)) + int (length (p # ps)))"
    using ih lvl r by simp
  have c2: "length (volumeCommands (trace (upPresses (p # ps) w)))
       = length (volumeCommands (trace w)) + length (p # ps)"
    using ih vc by simp
  have c3: "currentVolume (state w) = 30 \<longrightarrow>
          volumeCommands (trace (upPresses (p # ps) w))
            = volumeCommands (trace w) @ replicate (length (p # ps)) 30"
  proof
    assume e: "currentVolume (state w) = 30"
    hence "sint (currentVolume (state ?w1)) = 30" using lvl by simp
    hence e1: "currentVolume (state ?w1) = 30" by (rule sint_eq_30)
    hence "volumeCommands (trace (upPresses ps ?w1))
            = volumeCommands (trace ?w1) @ replicate (length ps) 30"
      using ih by simp
    thus "volumeCommands (trace (upPresses (p # ps) w))
            = volumeCommands (trace w) @ replicate (length (p # ps)) 30"
      using vc e1 by simp
  qed
  show ?case using c1 c2 c3 by simp
qed

lemma downPresses_spaced:
  "spaced (lastDownPress (buttons w)) ps \<Longrightarrow> volumeInRange (currentVolume (state w)) \<Longrightarrow>
     sint (currentVolume (state (downPresses ps w)))
       = max 0 (sint (currentVolume (state w)) - int (length ps))
     \<and> length (volumeCommands (trace (downPresses ps w)))
       = length (volumeCommands (trace w)) + length ps
     \<and> (currentVolume (state w) = 0 \<longrightarrow>
          volumeCommands (trace (downPresses ps w))
            = volumeCommands (trace w) @ replicate (length ps) 0)"
proof (induction ps arbitrary: w)
  case Nil
  then show ?case by (simp add: volumeInRange_iff)
next
  case (Cons p ps)
  let ?a = "adjustVolume (- 1) w"
  let ?w1 = "downPress p w"
  have acc: "BUTTON_DEBOUNCE_DELAY < snd p - lastDownPress (buttons w)"
    and sp: "spaced (snd p) ps"
    using Cons.prems(1) by simp_all
  have w1: "?w1 = ?a\<lparr>buttons := (buttons w)
            \<lparr>lastUpState := False, lastDownState := True, lastDownPress := snd p\<rparr>\<rparr>"
    using acc by (rule downPress_accepted)
  have st: "state ?w1 = state ?a" and tr: "trace ?w1 = trace ?a"
    and lp: "lastDownPress (buttons ?w1) = snd p"
    unfolding w1 by simp_all
  have lvl: "sint (currentVolume (state ?w1)) = max 0 (sint (currentVolume (state w)) - 1)"
    unfolding st using Cons.prems(2) by (rule sint_adjustVolume_down)
  have rng: "volumeInRange (currentVolume (state ?w1))"
    unfolding st by (rule volumeInRange_adjustVolume)
  have sp1: "spaced (lastDownPress (buttons ?w1)) ps"
    unfolding lp by (rule sp)
  note ih = Cons.IH [OF sp1 rng]
  have r: "0 \<le> sint (currentVolume (state w))" "sint (currentVolume (state w)) \<le> 30"
    using Cons.prems(2) by (simp_all add: volumeInRange_iff)
  have vc: "volumeCommands (trace ?w1)
      = volumeCommands (trace w) @ [ucast (currentVolume (state ?w1))]"
    unfolding tr st by (rule volumeCommands_adjustVolume)
  have c1: "sint (currentVolume (state (downPresses (p # ps) w)))
       = max 0 (sint (currentVolume (state w)) - int (length (p # ps)))"
    using ih lvl r by simp
  have c2: "length (volumeCommands (trace (downPresses (p # ps) w)))
       = length (volumeCommands (trace w)) + length (p # ps)"
    using ih vc by simp
  have c3: "currentVolume (state w) = 0 \<longrightarrow>
          volumeCommands (trace (downPresses (p # ps) w))
            = volumeCommands (trace w) @ replicate (length (p # ps)) 0"
  proof
    assume e: "currentVolume (state w) = 0"
    hence "sint (currentVolume (state ?w1)) = 0" using lvl by simp
    hence e1: "currentVolume (state ?w1) = 0" by (rule sint_eq_0)
    hence "volumeCommands (trace (downPresses ps ?w1))
            = volumeCommands (trace ?w1) @ replicate (length ps) 0"
      using ih by simp
    thus "volumeCommands (trace (downPresses (p # ps) w))
            = volumeCommands (trace w) @ replicate (length (p # ps)) 0"
      using vc e1 by simp
  qed
  show ?case using c1 c2 c3 by simp
qed

lemma upPresses_append: "upPresses (a @ b) w = upPresses b (upPresses a w)"
  by (induction a arbitrary: w) simp_all

lemma upPresses_lastUpPress:
  "spaced (lastUpPress (buttons w)) ps \<Longrightarrow>
     lastUpPress (buttons (upPresses ps w))
       = (if ps = [] then lastUpPress (buttons w) else snd (last ps))"
proof (induction ps arbitrary: w)
  case Nil
  show ?case by simp
next
  case (Cons p ps)
  have acc: "BUTTON_DEBOUNCE_DELAY < snd p - lastUpPress (buttons w)"
    and sp: "spaced (snd p) ps"
    using Cons.prems by simp_all
  have lp: "lastUpPress (buttons (upPress p w)) = snd p"
    unfolding upPress_accepted [OF acc] by simp
  have "spaced (lastUpPress (buttons (upPress p w))) ps"
    unfolding lp by (rule sp)
  from Cons.IH [OF this] show ?case using lp by simp
qed

lemma initial_facts:
  "lastUpPress (buttons initialSys) = 0" "lastDownPress (buttons initialSys) = 0"
  "currentVolume (state initialSys) = 20" "trace initialSys = []"
  by (simp_all add: initialSys_def initialButtons_def initialState_def DEFAULT_VOLUME_def)

text \<open>
  Claim C3, as amended. From a level in range, \<open>n\<close> accepted presses of the up button
  (each more than 200 ms after the one before) leave the level at \<open>min 30 (level + n)\<close>,
  so 15 presses from 20 leave 30. Every accepted press sends one volume-set command, also
  when the level is already 30: those presses send volume-set 30 again. Accepted presses
  of the down button at level 0 leave the level 0 and send volume-set 0 each.
\<close>

theorem volume_presses_clamp:
  assumes "spaced (lastUpPress (buttons w)) ps"
    and "volumeInRange (currentVolume (state w))"
    and "spaced (lastDownPress (buttons w0)) qs"
    and "currentVolume (state w0) = 0"
  shows "sint (currentVolume (state (upPresses ps w)))
           = min 30 (sint (currentVolume (state w)) + int (length ps))
       \<and> length (volumeCommands (trace (upPresses ps w)))
           = length (volumeCommands (trace w)) + length ps
       \<and> (currentVolume (state w) = 30 \<longrightarrow>
            volumeCommands (trace (upPresses ps w))
              = volumeCommands (trace w) @ replicate (length ps) 30)
       \<and> currentVolume (state (downPresses qs w0)) = 0
       \<and> volumeCommands (trace (downPresses qs w0))
           = volumeCommands (trace w0) @ replicate (length qs) 0"
proof -
  have r0: "volumeInRange (currentVolume (state w0))"
    using assms(4) by (simp add: volumeInRange_iff)
  note d = downPresses_spaced [OF assms(3) r0]
  have "sint (currentVolume (state (downPresses qs w0))) = 0"
    using d assms(4) by simp
  hence z: "currentVolume (state (downPresses qs w0)) = 0" by (rule sint_eq_0)
  show ?thesis
    using upPresses_spaced [OF assms(1,2)] d z assms(4) by simp
qed

theorem volume_presses_clamp_witness:
  "spaced (lastUpPress (buttons initialSys))
     [(500, 1000), (1500, 2000), (2500, 3000), (3500, 4000), (4500, 5000),
      (5500, 6000), (6500, 7000), (7500, 8000), (8500, 9000), (9500, 10000),
      (10500, 11000), (11500, 12000), (12500, 13000), (13500, 14000), (14500, 15000)]
   \<and> volumeInRange (currentVolume (state initialSys))
   \<and> sint (currentVolume (state (upPresses
     [(500, 1000), (1500, 2000), (2500, 3000), (3500, 4000), (4500, 5000),
      (5500, 6000), (6500, 7000), (7500, 8000), (8500, 9000), (9500, 10000),
      (10500, 11000), (11500, 12000), (12500, 13000), (13500, 14000), (14500, 15000)]
      initialSys))) = 30
   \<and> length (volumeCommands (trace (upPresses
     [(500, 1000), (1500, 2000), (2500, 3000), (3500, 4000), (4500, 5000),
      (5500, 6000), (6500, 7000), (7500, 8000), (8500, 9000), (9500, 10000),
      (10500, 11000), (11500, 12000), (12500, 13000), (13500, 14000), (14500, 15000)]
      initialSys))) = 15
   \<and> spaced (lastDownPress (buttons (initialSys\<lparr>state := initialState\<lparr>currentVolume := 0\<rparr>\<rparr>)))
        [(500, 1000), (1500, 2000), (2500, 3000)]
   \<and> currentVolume (state (downPresses [(500, 1000), (1500, 2000), (2500, 3000)]
        (initialSys\<lparr>state := initialState\<lparr>currentVolume := 0\<rparr>\<rparr>))) = 0
   \<and> volumeCommands (trace (downPresses [(500, 1000), (1500, 2000), (2500, 3000)]
        (initialSys\<lparr>state := initialState\<lparr>currentVolume := 0\<rparr>\<rparr>))) = [0, 0, 0]"
proof -
  let ?ps = "[(500, 1000), (1500, 2000), (2500, 3000), (3500, 4000), (4500, 5000),
      (5500, 6000), (6500, 7000), (7500, 8000), (8500, 9000), (9500, 10000),
      (10500, 11000), (11500, 12000), (12500, 13000), (13500, 14000), (14500, 15000)]
      :: (ulong \<times> ulong) list"
  let ?qs = "[(500, 1000), (1500, 2000), (2500, 3000)] :: (ulong \<times> ulong) list"
  let ?w0 = "initialSys\<lparr>state := initialState\<lparr>currentVolume := 0\<rparr>\<rparr>"
  have h1: "spaced (lastUpPress (buttons initialSys)) ?ps"
    by (simp add: initial_facts BUTTON_DEBOUNCE_DELAY_def)
  have h2: "volumeInRange (currentVolume (state initialSys))"
    by (simp add: initial_facts volumeInRange_iff)
  have h3: "spaced (lastDownPress (buttons ?w0)) ?qs"
    by (simp add: initial_facts BUTTON_DEBOUNCE_DELAY_def)
  have h4: "currentVolume (state ?w0) = 0" by simp
  have t0: "trace ?w0 = []" by (simp add: initial_facts)
  show ?thesis
    using h1 h2 h3 volume_presses_clamp [OF h1 h2 h3 h4]
    by (simp add: initial_facts t0)
qed

text \<open>
  The claim as stated has no volume-set command after the level reaches 30. From the
  initial state ten presses reach 30, and the five presses after them send five more
  volume-set commands.
\<close>

theorem volume_presses_at_max_counterexample:
  "currentVolume (state (upPresses
     [(500, 1000), (1500, 2000), (2500, 3000), (3500, 4000), (4500, 5000),
      (5500, 6000), (6500, 7000), (7500, 8000), (8500, 9000), (9500, 10000)]
      initialSys)) = 30
   \<and> volumeCommands (trace (upPresses
     ([(500, 1000), (1500, 2000), (2500, 3000), (3500, 4000), (4500, 5000),
       (5500, 6000), (6500, 7000), (7500, 8000), (8500, 9000), (9500, 10000)]
      @ [(10500, 11000), (11500, 12000), (12500, 13000), (13500, 14000), (14500, 15000)])
      initialSys))
     = volumeCommands (trace (upPresses
     [(500, 1000), (1500, 2000), (2500, 3000), (3500, 4000), (4500, 5000),
      (5500, 6000), (6500, 7000), (7500, 8000), (8500, 9000), (9500, 10000)]
      initialSys)) @ [30, 30, 30, 30, 30]"
proof -
  let ?ps = "[(500, 1000), (1500, 2000), (2500, 3000), (3500, 4000), (4500, 5000),
      (5500, 6000), (6500, 7000), (7500, 8000), (8500, 9000), (9500, 10000)]
      :: (ulong \<times> ulong) list"
  let ?qs = "[(10500, 11000), (11500, 12000), (12500, 13000), (13500, 14000), (14500, 15000)]
      :: (ulong \<times> ulong) list"
  let ?w = "upPresses ?ps initialSys"
  have h1: "spaced (lastUpPress (buttons initialSys)) ?ps"
    by (simp add: initial_facts BUTTON_DEBOUNCE_DELAY_def)
  have h2: "volumeInRange (currentVolume (state initialSys))"
    by (simp add: initial_facts volumeInRange_iff)
  have "sint (currentVolume (state ?w)) = 30"
    using upPresses_spaced [OF h1 h2] by (simp add: initial_facts)
  hence v: "currentVolume (state ?w) = 30" by (rule sint_eq_30)
  have lp: "lastUpPress (buttons ?w) = 10000"
    using upPresses_lastUpPress [OF h1] by simp
  have h3: "spaced (lastUpPress (buttons ?w)) ?qs"
    unfolding lp by (simp add: BUTTON_DEBOUNCE_DELAY_def)
  have h4: "volumeInRange (currentVolume (state ?w))"
    unfolding v by (simp add: volumeInRange_iff)
  have "volumeCommands (trace (upPresses ?qs ?w))
          = volumeCommands (trace ?w) @ replicate (length ?qs) 30"
    using upPresses_spaced [OF h3 h4] v by simp
  hence "volumeCommands (trace (upPresses (?ps @ ?qs) initialSys))
          = volumeCommands (trace ?w) @ [30, 30, 30, 30, 30]"
    unfolding upPresses_append by (simp add: numeral_eq_Suc)
  thus ?thesis using v by simp
qed

text \<open>
  Claim C6. One call of \<open>checkVolumeButtons\<close> accepts a press of a button exactly when
  the button is down now, the sample stored for it was not, and more than 200 ms (in
  wrapping arithmetic) have passed since the press last accepted for it: exactly then
  \<open>adjustVolume\<close> runs for that button and its press time becomes \<open>now\<close>. The
  condition of each button reads that button's fields only. The stored sample of each
  button becomes the current one on every call. Hence after an accepted press, samples
  within 200 ms of it, falling edges among them, are not accepted: with the other button
  released they change neither \<open>state\<close> nor the trace.
\<close>

theorem checkVolumeButtons_debounce:
  "lastUpState (buttons (checkVolumeButtons now up down w)) = (up = LOW)
   \<and> lastDownState (buttons (checkVolumeButtons now up down w)) = (down = LOW)
   \<and> lastUpPress (buttons (checkVolumeButtons now up down w))
       = (if up = LOW \<and> \<not> lastUpState (buttons w)
             \<and> BUTTON_DEBOUNCE_DELAY < now - lastUpPress (buttons w)
          then now else lastUpPress (buttons w))
   \<and> lastDownPress (buttons (checkVolumeButtons now up down w))
       = (if down = LOW \<and> \<not> lastDownState (buttons w)
             \<and> BUTTON_DEBOUNCE_DELAY < now - lastDownPress (buttons w)
          then now else lastDownPress (buttons w))
   \<and> state (checkVolumeButtons now up down w)
       = state ((if down = LOW \<and> \<not> lastDownState (buttons w)
                    \<and> BUTTON_DEBOUNCE_DELAY < now - lastDownPress (buttons w)
                 then adjustVolume (- 1) else id)
                ((if up = LOW \<and> \<not> lastUpState (buttons w)
                     \<and> BUTTON_DEBOUNCE_DELAY < now - lastUpPress (buttons w)
                  then adjustVolume 1 else id) w))
   \<and> trace (checkVolumeButtons now up down w)
       = trace ((if down = LOW \<and> \<not> lastDownState (buttons w)
                    \<and> BUTTON_DEBOUNCE_DELAY < now - lastDownPress (buttons w)
                 then adjustVolume (- 1) else id)
                ((if up = LOW \<and> \<not> lastUpState (buttons w)
                     \<and> BUTTON_DEBOUNCE_DELAY < now - lastUpPress (buttons w)
                  then adjustVolume 1 else id) w))
   \<and> ((\<forall>x \<in> set xs. fst x - lastUpPress (buttons w) \<le> BUTTON_DEBOUNCE_DELAY
                       \<and> snd (snd x) = HIGH) \<longrightarrow>
        state (runButtons xs w) = state w \<and> trace (runButtons xs w) = trace w
        \<and> lastUpPress (buttons (runButtons xs w)) = lastUpPress (buttons w))
   \<and> ((\<forall>x \<in> set xs. fst x - lastDownPress (buttons w) \<le> BUTTON_DEBOUNCE_DELAY
                       \<and> fst (snd x) = HIGH) \<longrightarrow>
        state (runButtons xs w) = state w \<and> trace (runButtons xs w) = trace w
        \<and> lastDownPress (buttons (runButtons xs w)) = lastDownPress (buttons w))"
proof -
  have a: "lastUpState (buttons (checkVolumeButtons now up down w)) = (up = LOW)"
    by (simp add: checkVolumeButtons_eq Let_def)
  have b: "lastDownState (buttons (checkVolumeButtons now up down w)) = (down = LOW)"
    by (simp add: checkVolumeButtons_eq Let_def)
  have c: "lastUpPress (buttons (checkVolumeButtons now up down w))
       = (if up = LOW \<and> \<not> lastUpState (buttons w)
             \<and> BUTTON_DEBOUNCE_DELAY < now - lastUpPress (buttons w)
          then now else lastUpPress (buttons w))"
    by (simp add: checkVolumeButtons_eq Let_def)
  have d: "lastDownPress (buttons (checkVolumeButtons now up down w))
       = (if down = LOW \<and> \<not> lastDownState (buttons w)
             \<and> BUTTON_DEBOUNCE_DELAY < now - lastDownPress (buttons w)
          then now else lastDownPress (buttons w))"
    by (simp add: checkVolumeButtons_eq Let_def)
  have e: "state (checkVolumeButtons now up down w)
       = state ((if down = LOW \<and> \<not> lastDownState (buttons w)
                    \<and> BUTTON_DEBOUNCE_DELAY < now - lastDownPress (buttons w)
                 then adjustVolume (- 1) else id)
                ((if up = LOW \<and> \<not> lastUpState (buttons w)
                     \<and> BUTTON_DEBOUNCE_DELAY < now - lastUpPress (buttons w)
                  then adjustVolume 1 else id) w))"
    by (simp add: checkVolumeButtons_eq Let_def)
  have f: "trace (checkVolumeButtons now up down w)
       = trace ((if down = LOW \<and> \<not> lastDownState (buttons w)
                    \<and> BUTTON_DEBOUNCE_DELAY < now - lastDownPress (buttons w)
                 then adjustVolume (- 1) else id)
                ((if up = LOW \<and> \<not> lastUpState (buttons w)
                     \<and> BUTTON_DEBOUNCE_DELAY < now - lastUpPress (buttons w)
                  then adjustVolume 1 else id) w))"
    by (simp add: checkVolumeButtons_eq Let_def)
  show ?thesis
    using a b c d e f runButtons_quiet_up [of xs w] runButtons_quiet_down [of xs w]
    by blast
qed

lemma adjustVolume_initial_trace:
  "trace (adjustVolume 1 (initialSys\<lparr>buttons := b\<rparr>)) = [DfVolume 21, Serial (VolumeLine 21)]"
  by (simp add: adjustVolume_eq Let_def initial_facts MIN_VOLUME_def MAX_VOLUME_def word_sless_alt)

theorem checkVolumeButtons_debounce_witness:
  "lastUpPress (buttons (checkVolumeButtons 1000 LOW HIGH
       (initialSys\<lparr>buttons := initialButtons\<lparr>lastUpState := False, lastDownState := False\<rparr>\<rparr>)))
     = 1000
   \<and> trace (checkVolumeButtons 1000 LOW HIGH
       (initialSys\<lparr>buttons := initialButtons\<lparr>lastUpState := False, lastDownState := False\<rparr>\<rparr>))
     = [DfVolume 21, Serial (VolumeLine 21)]
   \<and> trace (runButtons [(1050, HIGH, HIGH), (1100, LOW, HIGH)]
       (checkVolumeButtons 1000 LOW HIGH
         (initialSys\<lparr>buttons := initialButtons\<lparr>lastUpState := False, lastDownState := False\<rparr>\<rparr>)))
     = [DfVolume 21, Serial (VolumeLine 21)]
   \<and> lastUpState (buttons (checkVolumeButtons 1100 HIGH HIGH
       (initialSys\<lparr>buttons := initialButtons\<lparr>lastUpState := False, lastDownState := False\<rparr>\<rparr>)))
     = False"
proof -
  let ?wr = "initialSys\<lparr>buttons := initialButtons\<lparr>lastUpState := False, lastDownState := False\<rparr>\<rparr>"
  let ?w1 = "checkVolumeButtons 1000 LOW HIGH ?wr"
  let ?xs = "[(1050, HIGH, HIGH), (1100, LOW, HIGH)] :: (ulong \<times> pin \<times> pin) list"
  have b: "lastUpPress (buttons ?wr) = 0" "lastUpState (buttons ?wr) = False"
    "lastDownState (buttons ?wr) = False" "lastDownPress (buttons ?wr) = 0"
    by (simp_all add: initialButtons_def)
  note t1 = checkVolumeButtons_debounce [of 1000 LOW HIGH ?wr "[]"]
  have lp: "lastUpPress (buttons ?w1) = 1000"
    using t1 b by (simp add: BUTTON_DEBOUNCE_DELAY_def)
  have tr: "trace ?w1 = [DfVolume 21, Serial (VolumeLine 21)]"
    using t1 b by (simp add: BUTTON_DEBOUNCE_DELAY_def adjustVolume_initial_trace)
  have q: "\<forall>x \<in> set ?xs. fst x - lastUpPress (buttons ?w1) \<le> BUTTON_DEBOUNCE_DELAY
                       \<and> snd (snd x) = HIGH"
    unfolding lp by (simp add: BUTTON_DEBOUNCE_DELAY_def)
  have tr2: "trace (runButtons ?xs ?w1) = trace ?w1"
    using checkVolumeButtons_debounce [of 1000 LOW HIGH ?w1 ?xs] q by blast
  have ls: "lastUpState (buttons (checkVolumeButtons 1100 HIGH HIGH ?wr)) = False"
    using checkVolumeButtons_debounce [of 1100 HIGH HIGH ?wr "[]"] by simp
  show ?thesis
    using lp tr tr2 ls by simp
qed

section \<open>Tag identity, polling and the grace period\<close>

lemma unat_Suc_less: "(i :: u8) < len \<Longrightarrow> unat (i + 1) = Suc (unat i)"
proof -
  assume lt: "i < len"
  have "unat i < unat len"
    using lt by (simp add: word_less_nat_alt)
  moreover have "unat len < 256"
    using unsigned_less [of len] by simp
  ultimately show ?thesis
    by (simp add: unat_word_ariths)
qed

lemma uidsMatch_from_iff:
  "uidsMatch_from uid1 uid2 len i
     = (\<forall>j. unat i \<le> j \<and> j < unat len \<longrightarrow> uid1 ! j = uid2 ! j)"
proof (induction uid1 uid2 len i rule: uidsMatch_from.induct)
  case (1 uid1 uid2 len i)
  show ?case
  proof (cases "i < len")
    case False
    hence "unat len \<le> unat i" by (simp add: word_less_nat_alt)
    hence "\<forall>j. unat i \<le> j \<and> j < unat len \<longrightarrow> uid1 ! j = uid2 ! j" by auto
    thus ?thesis using False by (subst uidsMatch_from.simps) simp
  next
    case True
    note lt = True
    hence il: "unat i < unat len" by (simp add: word_less_nat_alt)
    show ?thesis
    proof (cases "uid1 ! unat i \<noteq> uid2 ! unat i")
      case True
      hence "\<not> (\<forall>j. unat i \<le> j \<and> j < unat len \<longrightarrow> uid1 ! j = uid2 ! j)"
        using il by auto
      thus ?thesis using lt True by (subst uidsMatch_from.simps) simp
    next
      case False
      hence eq: "uid1 ! unat i = uid2 ! unat i" by simp
      have ih: "uidsMatch_from uid1 uid2 len (i + 1)
          = (\<forall>j. Suc (unat i) \<le> j \<and> j < unat len \<longrightarrow> uid1 ! j = uid2 ! j)"
        using "1.IH" [OF lt False] unat_Suc_less [OF lt] by simp
      have "(\<forall>j. Suc (unat i) \<le> j \<and> j < unat len \<longrightarrow> uid1 ! j = uid2 ! j)
          = (\<forall>j. unat i \<le> j \<and> j < unat len \<longrightarrow> uid1 ! j = uid2 ! j)"
        using eq by (metis Suc_leI le_neq_implies_less Suc_leD)
      thus ?thesis using lt False ih by (subst uidsMatch_from.simps) simp
    qed
  qed
qed

lemma uidsMatch_iff:
  "uidsMatch uid1 uid2 len = (\<forall>j < unat len. uid1 ! j = uid2 ! j)"
  by (simp add: uidsMatch_def uidsMatch_from_iff)

lemma memcpy_nth:
  "j < unat n \<Longrightarrow> unat n \<le> length src \<Longrightarrow> memcpy dst src n ! j = src ! j"
  by (simp add: memcpy_def nth_append)

lemma memcpy_length:
  "unat n \<le> length src \<Longrightarrow> unat n \<le> length dst \<Longrightarrow> length (memcpy dst src n) = length dst"
  by (simp add: memcpy_def)

lemma take_nth_eq:
  "take n xs = take n ys \<Longrightarrow> j < n \<Longrightarrow> xs ! j = ys ! j"
  by (metis nth_take)

lemma buttons_stopSong [simp]: "buttons (stopSong w) = buttons w"
  by (cases "isSongPlaying (state w)") (simp_all add: stopSong_playing stopSong_idle)

lemma buttons_playSong [simp]: "buttons (playSong n w) = buttons w"
  by (simp add: playSong_eq)

lemma state_stopSong:
  "state (stopSong w) = (if isSongPlaying (state w)
                          then (state w)\<lparr>isSongPlaying := False, currentTrack := 0\<rparr>
                          else state w)"
  by (cases "isSongPlaying (state w)") (simp_all add: stopSong_playing stopSong_idle)

lemma trace_stopSong:
  "trace (stopSong w) = trace w @ (if isSongPlaying (state w)
        then [Serial (StoppingLine (currentTrack (state w))), DfStop, LedWrite LOW] else [])"
  by (cases "isSongPlaying (state w)") (simp_all add: stopSong_playing stopSong_idle)

lemma state_playSong:
  "state (playSong n w) = (state w)\<lparr>currentTrack := n, isSongPlaying := True\<rparr>"
  by (simp add: playSong_eq)

lemma trace_playSong:
  "trace (playSong n w) = trace w @ [Serial (PlayingLine n), DfPlay n, LedWrite HIGH]"
  by (simp add: playSong_eq)

lemma stopSong_not_playing [simp]: "\<not> isSongPlaying (state (stopSong w))"
  by (simp add: state_stopSong)

lemma handleNewTag_valid:
  assumes "fst (readSongNumberFromTag rd w) = n" and "n \<noteq> - 1"
  shows "handleNewTag uid rawUID len rd w =
     (let w2 = emit [Serial TagDetectedBanner, Serial (UidLine uid)] w;
          w4 = (if isSongPlaying (state w2) \<and> currentTrack (state w2) \<noteq> n
                then stopSong w2 else w2)
      in if \<not> isSongPlaying (state w4) then playSong n w4 else w4)"
proof -
  let ?w2 = "emit [Serial (UidLine uid)] (emit [Serial TagDetectedBanner] w)"
  have r: "readSongNumberFromTag rd ?w2 = (n, ?w2)"
    using assms by (rule readSong_valid_eq)
  have e: "?w2 = emit [Serial TagDetectedBanner, Serial (UidLine uid)] w"
    by (simp add: emit_def)
  show ?thesis
    unfolding handleNewTag_def Let_def r e [symmetric] using assms(2) by simp
qed

text \<open>What \<open>handleNewTag\<close> leaves alone: everything but the two playback fields.\<close>

lemma buttons_handleNewTag [simp]: "buttons (handleNewTag uid rawUID len rd w) = buttons w"
proof (cases "fst (readSongNumberFromTag rd w) = - 1")
  case True
  thus ?thesis by (simp add: handleNewTag_invalid)
next
  case False
  thus ?thesis by (simp add: handleNewTag_valid [OF refl False] Let_def)
qed

lemma state_handleNewTag_frame:
  "state (handleNewTag uid rawUID len rd w)
     = (state w)\<lparr>isSongPlaying := isSongPlaying (state (handleNewTag uid rawUID len rd w)),
                  currentTrack := currentTrack (state (handleNewTag uid rawUID len rd w))\<rparr>"
proof (cases "fst (readSongNumberFromTag rd w) = - 1")
  case True
  thus ?thesis by (simp add: handleNewTag_invalid state_stopSong)
next
  case False
  thus ?thesis
    by (simp add: handleNewTag_valid [OF refl False] Let_def state_stopSong state_playSong)
qed

lemma handlerRuns_handleNewTag:
  "handlerRuns (trace (handleNewTag uid rawUID len rd w)) = handlerRuns (trace w) + 1"
proof (cases "fst (readSongNumberFromTag rd w) = - 1")
  case True
  thus ?thesis by (simp add: handleNewTag_invalid trace_stopSong) (simp add: handlerRuns_def)
next
  case False
  thus ?thesis
    by (simp add: handleNewTag_valid [OF refl False] Let_def trace_stopSong trace_playSong)
       (simp add: handlerRuns_def)
qed

lemma volumeCommands_handleNewTag:
  "volumeCommands (trace (handleNewTag uid rawUID len rd w)) = volumeCommands (trace w)"
proof (cases "fst (readSongNumberFromTag rd w) = - 1")
  case True
  thus ?thesis by (simp add: handleNewTag_invalid trace_stopSong)
next
  case False
  thus ?thesis
    by (simp add: handleNewTag_valid [OF refl False] Let_def trace_stopSong trace_playSong)
qed

lemma playbackInvariant_stopSong:
  "playbackInvariant (state w) \<Longrightarrow> playbackInvariant (state (stopSong w))"
  by (simp add: playbackInvariant_def state_stopSong)

lemma playbackInvariant_playSong:
  "n \<noteq> 0 \<Longrightarrow> playbackInvariant (state (playSong n w))"
  by (simp add: playbackInvariant_def state_playSong)

lemma valid_song_nonzero:
  assumes "fst (readSongNumberFromTag rd w) \<noteq> - 1"
  shows "fst (readSongNumberFromTag rd w) \<noteq> 0"
proof
  assume z: "fst (readSongNumberFromTag rd w) = 0"
  have "1 \<le>s fst (readSongNumberFromTag rd w)"
    using readSong_valid_range [OF assms] by simp
  thus False unfolding z by (simp add: word_sle_eq)
qed

lemma playbackInvariant_handleNewTag:
  assumes "playbackInvariant (state w)"
  shows "playbackInvariant (state (handleNewTag uid rawUID len rd w))"
proof (cases "fst (readSongNumberFromTag rd w) = - 1")
  case True
  thus ?thesis using assms
    by (simp add: handleNewTag_invalid playbackInvariant_def state_stopSong)
next
  case False
  have nz: "fst (readSongNumberFromTag rd w) \<noteq> 0"
    using False by (rule valid_song_nonzero)
  show ?thesis using assms nz
    by (simp add: handleNewTag_valid [OF refl False] Let_def playbackInvariant_def
          state_stopSong state_playSong)
qed

lemma checkNFCTag_None:
  "checkNFCTag None rd now w = w\<lparr>state := (state w)\<lparr>isTagPresent := False\<rparr>\<rparr>"
  by (cases "isTagPresent (state w)") (simp_all add: checkNFCTag_def)

lemma checkNFCTag_same:
  "\<not> isNewTag (state w) uid len \<Longrightarrow>
     checkNFCTag (Some (uid, len)) rd now w
       = w\<lparr>state := (state w)\<lparr>lastTagDetectionTime := now, isTagPresent := True\<rparr>\<rparr>"
  by (simp add: checkNFCTag_def Let_def isNewTag_def)

lemma checkNFCTag_new:
  "isNewTag (state w) uid len \<Longrightarrow>
     checkNFCTag (Some (uid, len)) rd now w
       = (let h = handleNewTag (uidToString uid len) uid len rd
                    (w\<lparr>state := (state w)\<lparr>lastTagDetectionTime := now\<rparr>\<rparr>)
          in h\<lparr>state := (state h)\<lparr>lastUID := memcpy (lastUID (state h)) uid len,
                                     lastUIDLength := len, isTagPresent := True\<rparr>\<rparr>)"
  by (simp add: checkNFCTag_def Let_def isNewTag_def)

lemma buttons_checkNFCTag [simp]: "buttons (checkNFCTag tag rd now w) = buttons w"
proof (cases tag)
  case None
  thus ?thesis by (simp add: checkNFCTag_None)
next
  case (Some a)
  obtain uid len where a: "a = (uid, len)" by (cases a) auto
  show ?thesis unfolding Some a
    by (cases "isNewTag (state w) uid len") (simp_all add: checkNFCTag_same checkNFCTag_new Let_def)
qed

lemma playbackInvariant_checkNFCTag:
  assumes "playbackInvariant (state w)"
  shows "playbackInvariant (state (checkNFCTag tag rd now w))"
proof (cases tag)
  case None
  thus ?thesis using assms by (simp add: checkNFCTag_None playbackInvariant_def)
next
  case (Some a)
  obtain uid len where a: "a = (uid, len)" by (cases a) auto
  show ?thesis
  proof (cases "isNewTag (state w) uid len")
    case False
    thus ?thesis unfolding Some a using assms
      by (simp add: checkNFCTag_same playbackInvariant_def)
  next
    case True
    let ?w1 = "w\<lparr>state := (state w)\<lparr>lastTagDetectionTime := now\<rparr>\<rparr>"
    have "playbackInvariant (state ?w1)"
      using assms by (simp add: playbackInvariant_def)
    hence "playbackInvariant (state (handleNewTag (uidToString uid len) uid len rd ?w1))"
      by (rule playbackInvariant_handleNewTag)
    thus ?thesis unfolding Some a
      by (simp add: checkNFCTag_new [OF True] Let_def playbackInvariant_def)
  qed
qed

lemma buttons_handleGracePeriod [simp]: "buttons (handleGracePeriod now w) = buttons w"
  by (simp add: handleGracePeriod_def Let_def)

lemma playbackInvariant_handleGracePeriod:
  "playbackInvariant (state w) \<Longrightarrow> playbackInvariant (state (handleGracePeriod now w))"
  by (simp add: handleGracePeriod_def Let_def playbackInvariant_stopSong)

lemma state_checkVolumeButtons:
  "state (checkVolumeButtons now up down w)
     = (state w)\<lparr>currentVolume := currentVolume (state (checkVolumeButtons now up down w))\<rparr>"
proof -
  have a: "\<And>d v. state (adjustVolume d v)
      = (state v)\<lparr>currentVolume := currentVolume (state (adjustVolume d v))\<rparr>"
    by (rule state_adjustVolume)
  have b: "\<And>d e v. state (adjustVolume d (adjustVolume e v))
      = (state v)\<lparr>currentVolume := currentVolume (state (adjustVolume d (adjustVolume e v)))\<rparr>"
    by (subst state_adjustVolume, subst (2) state_adjustVolume) simp
  show ?thesis
    using a [of 1 w] a [of "- 1" w] b [of "- 1" 1 w]
    by (simp add: checkVolumeButtons_eq Let_def)
qed

lemma playbackInvariant_checkVolumeButtons:
  "playbackInvariant (state w) \<Longrightarrow> playbackInvariant (state (checkVolumeButtons now up down w))"
  by (subst state_checkVolumeButtons) (simp add: playbackInvariant_def)

lemma playbackInvariant_loopPlay:
  assumes "playbackInvariant (state w)"
  shows "playbackInvariant (state (loopPlay i w))"
proof -
  let ?w1 = "checkVolumeButtons (buttonsNow i) (upPin i) (downPin i) w"
  have p1: "playbackInvariant (state ?w1)"
    using assms by (rule playbackInvariant_checkVolumeButtons)
  let ?c = "checkNFCTag (nfcTag i) (nfcPage i) (nfcNow i) ?w1"
  let ?w2 = "if NFC_CHECK_INTERVAL \<le> loopNow i - lastNFCCheckTime (state ?w1)
             then ?c\<lparr>state := (state ?c)\<lparr>lastNFCCheckTime := loopNow i\<rparr>\<rparr> else ?w1"
  have "playbackInvariant (state ?c)"
    using p1 by (rule playbackInvariant_checkNFCTag)
  hence p2: "playbackInvariant (state ?w2)"
    using p1 by (simp add: playbackInvariant_def)
  have "loopPlay i w = handleGracePeriod (graceNow i) ?w2"
    by (simp add: loopPlay_def Let_def)
  thus ?thesis using playbackInvariant_handleGracePeriod [OF p2] by simp
qed

lemma playbackInvariant_runLoop:
  "playbackInvariant (state w) \<Longrightarrow> playbackInvariant (state (runLoop ins w))"
  by (induction ins arbitrary: w) (simp_all add: playbackInvariant_loopPlay)

lemma playbackInvariant_initial: "playbackInvariant (state initialSys)"
  by (simp add: playbackInvariant_def initialSys_def initialState_def)

lemma checkVolumeButtons_fields [simp]:
  "isTagPresent (state (checkVolumeButtons now up down w)) = isTagPresent (state w)"
  "isSongPlaying (state (checkVolumeButtons now up down w)) = isSongPlaying (state w)"
  "currentTrack (state (checkVolumeButtons now up down w)) = currentTrack (state w)"
  "lastTagDetectionTime (state (checkVolumeButtons now up down w)) = lastTagDetectionTime (state w)"
  "lastNFCCheckTime (state (checkVolumeButtons now up down w)) = lastNFCCheckTime (state w)"
  "lastUID (state (checkVolumeButtons now up down w)) = lastUID (state w)"
  "lastUIDLength (state (checkVolumeButtons now up down w)) = lastUIDLength (state w)"
  by (subst state_checkVolumeButtons, simp)+

lemma checkVolumeButtons_counts [simp]:
  "stopCommands (trace (checkVolumeButtons now up down w)) = stopCommands (trace w)"
  "playCommands (trace (checkVolumeButtons now up down w)) = playCommands (trace w)"
  "handlerRuns (trace (checkVolumeButtons now up down w)) = handlerRuns (trace w)"
proof -
  have a: "\<And>d v. stopCommands (trace (adjustVolume d v)) = stopCommands (trace v)"
    by (subst trace_adjustVolume) (simp add: stopCommands_def)
  have b: "\<And>d v. playCommands (trace (adjustVolume d v)) = playCommands (trace v)"
    by (subst trace_adjustVolume) (simp add: playCommands_def)
  have c: "\<And>d v. handlerRuns (trace (adjustVolume d v)) = handlerRuns (trace v)"
    by (subst trace_adjustVolume) (simp add: handlerRuns_def)
  show "stopCommands (trace (checkVolumeButtons now up down w)) = stopCommands (trace w)"
    by (simp add: checkVolumeButtons_eq Let_def a)
  show "playCommands (trace (checkVolumeButtons now up down w)) = playCommands (trace w)"
    by (simp add: checkVolumeButtons_eq Let_def b)
  show "handlerRuns (trace (checkVolumeButtons now up down w)) = handlerRuns (trace w)"
    by (simp add: checkVolumeButtons_eq Let_def c)
qed

lemma stopCommands_stopSong:
  "stopCommands (trace (stopSong w))
     = stopCommands (trace w) + (if isSongPlaying (state w) then 1 else 0)"
  by (simp add: trace_stopSong) (simp add: stopCommands_def)

lemma counts_stopSong [simp]:
  "playCommands (trace (stopSong w)) = playCommands (trace w)"
  "handlerRuns (trace (stopSong w)) = handlerRuns (trace w)"
  by (simp_all add: trace_stopSong) (simp_all add: playCommands_def handlerRuns_def)

text \<open>One iteration of the loop while no tag answers and none was present before.\<close>

lemma loopPlay_absent:
  assumes "nfcTag i = None" and "\<not> isTagPresent (state w)"
  shows "\<not> isTagPresent (state (loopPlay i w))"
    and "lastTagDetectionTime (state (loopPlay i w)) = lastTagDetectionTime (state w)"
    and "playCommands (trace (loopPlay i w)) = playCommands (trace w)"
    and "handlerRuns (trace (loopPlay i w)) = handlerRuns (trace w)"
    and "isSongPlaying (state w)
           \<and> TAG_GRACE_PERIOD < graceNow i - lastTagDetectionTime (state w) \<Longrightarrow>
         stopCommands (trace (loopPlay i w)) = stopCommands (trace w) + 1
         \<and> \<not> isSongPlaying (state (loopPlay i w))"
    and "\<not> (isSongPlaying (state w)
           \<and> TAG_GRACE_PERIOD < graceNow i - lastTagDetectionTime (state w)) \<Longrightarrow>
         stopCommands (trace (loopPlay i w)) = stopCommands (trace w)
         \<and> isSongPlaying (state (loopPlay i w)) = isSongPlaying (state w)
         \<and> currentTrack (state (loopPlay i w)) = currentTrack (state w)"
  using assms
  by (auto simp add: loopPlay_def Let_def checkNFCTag_None handleGracePeriod_def
        state_stopSong stopCommands_stopSong)

lemma runLoop_append: "runLoop (a @ b) w = runLoop b (runLoop a w)"
  by (induction a arbitrary: w) simp_all

lemma runLoop_within_grace:
  "\<not> isTagPresent (state w) \<Longrightarrow>
   \<forall>i \<in> set ins. nfcTag i = None
       \<and> graceNow i - lastTagDetectionTime (state w) \<le> TAG_GRACE_PERIOD \<Longrightarrow>
     stopCommands (trace (runLoop ins w)) = stopCommands (trace w)
     \<and> playCommands (trace (runLoop ins w)) = playCommands (trace w)
     \<and> handlerRuns (trace (runLoop ins w)) = handlerRuns (trace w)
     \<and> isSongPlaying (state (runLoop ins w)) = isSongPlaying (state w)
     \<and> currentTrack (state (runLoop ins w)) = currentTrack (state w)
     \<and> \<not> isTagPresent (state (runLoop ins w))
     \<and> lastTagDetectionTime (state (runLoop ins w)) = lastTagDetectionTime (state w)"
proof (induction ins arbitrary: w)
  case Nil
  thus ?case by simp
next
  case (Cons i ins)
  have n: "nfcTag i = None"
    and g: "\<not> (isSongPlaying (state w)
           \<and> TAG_GRACE_PERIOD < graceNow i - lastTagDetectionTime (state w))"
    using Cons.prems(2) by (simp_all add: not_less)
  note s = loopPlay_absent(1-4) [OF n Cons.prems(1)] loopPlay_absent(6) [OF n Cons.prems(1) g]
  have "\<forall>j \<in> set ins. nfcTag j = None
       \<and> graceNow j - lastTagDetectionTime (state (loopPlay i w)) \<le> TAG_GRACE_PERIOD"
    using Cons.prems(2) s(2) by simp
  from Cons.IH [OF s(1) this] show ?case using s by simp
qed

lemma runLoop_stopped:
  "\<not> isTagPresent (state w) \<Longrightarrow> \<not> isSongPlaying (state w) \<Longrightarrow>
   \<forall>i \<in> set ins. nfcTag i = None \<Longrightarrow>
     stopCommands (trace (runLoop ins w)) = stopCommands (trace w)
     \<and> playCommands (trace (runLoop ins w)) = playCommands (trace w)
     \<and> \<not> isSongPlaying (state (runLoop ins w))"
proof (induction ins arbitrary: w)
  case Nil
  thus ?case by simp
next
  case (Cons i ins)
  have n: "nfcTag i = None" using Cons.prems(3) by simp
  have g: "\<not> (isSongPlaying (state w)
           \<and> TAG_GRACE_PERIOD < graceNow i - lastTagDetectionTime (state w))"
    using Cons.prems(2) by simp
  note s = loopPlay_absent(1-4) [OF n Cons.prems(1)] loopPlay_absent(6) [OF n Cons.prems(1) g]
  have p: "\<not> isSongPlaying (state (loopPlay i w))" using s Cons.prems(2) by simp
  have "\<forall>j \<in> set ins. nfcTag j = None" using Cons.prems(3) by simp
  from Cons.IH [OF s(1) p this] show ?case using s by simp
qed

text \<open>One iteration while the tag held before still answers.\<close>

lemma loopPlay_held:
  assumes "isTagPresent (state w)"
    and "take (unat len) (lastUID (state w)) = take (unat len) uid"
    and "nfcTag i = Some (uid', len)"
    and "take (unat len) uid' = take (unat len) uid"
  shows "isTagPresent (state (loopPlay i w))
       \<and> take (unat len) (lastUID (state (loopPlay i w))) = take (unat len) uid
       \<and> stopCommands (trace (loopPlay i w)) = stopCommands (trace w)
       \<and> playCommands (trace (loopPlay i w)) = playCommands (trace w)
       \<and> handlerRuns (trace (loopPlay i w)) = handlerRuns (trace w)
       \<and> isSongPlaying (state (loopPlay i w)) = isSongPlaying (state w)
       \<and> currentTrack (state (loopPlay i w)) = currentTrack (state w)
       \<and> lastUIDLength (state (loopPlay i w)) = lastUIDLength (state w)"
proof -
  let ?w1 = "checkVolumeButtons (buttonsNow i) (upPin i) (downPin i) w"
  have "\<forall>j < unat len. uid' ! j = lastUID (state ?w1) ! j"
    using assms(2,4) by (metis checkVolumeButtons_fields(6) take_nth_eq)
  hence "uidsMatch uid' (lastUID (state ?w1)) len"
    by (simp add: uidsMatch_iff)
  hence nn: "\<not> isNewTag (state ?w1) uid' len"
    using assms(1) by (simp add: isNewTag_def)
  show ?thesis
    using assms(1,2)
    by (simp add: loopPlay_def Let_def assms(3) checkNFCTag_same [OF nn] handleGracePeriod_def)
qed

lemma runLoop_held:
  "isTagPresent (state w) \<Longrightarrow>
   take (unat len) (lastUID (state w)) = take (unat len) uid \<Longrightarrow>
   \<forall>i \<in> set ins. \<exists>uid'. nfcTag i = Some (uid', len)
       \<and> take (unat len) uid' = take (unat len) uid \<Longrightarrow>
     stopCommands (trace (runLoop ins w)) = stopCommands (trace w)
     \<and> playCommands (trace (runLoop ins w)) = playCommands (trace w)
     \<and> handlerRuns (trace (runLoop ins w)) = handlerRuns (trace w)
     \<and> isSongPlaying (state (runLoop ins w)) = isSongPlaying (state w)
     \<and> currentTrack (state (runLoop ins w)) = currentTrack (state w)
     \<and> isTagPresent (state (runLoop ins w))"
proof (induction ins arbitrary: w)
  case Nil
  thus ?case by simp
next
  case (Cons i ins)
  obtain uid' where t: "nfcTag i = Some (uid', len)"
    and e: "take (unat len) uid' = take (unat len) uid"
    using Cons.prems(3) by auto
  note s = loopPlay_held [OF Cons.prems(1,2) t e]
  have "\<forall>j \<in> set ins. \<exists>uid'. nfcTag j = Some (uid', len)
       \<and> take (unat len) uid' = take (unat len) uid"
    using Cons.prems(3) by simp
  from Cons.IH [OF _ _ this, of "loopPlay i w"] s show ?case by simp
qed

lemma take_memcpy:
  "unat n \<le> length src \<Longrightarrow> take (unat n) (memcpy dst src n) = take (unat n) src"
  by (simp add: memcpy_def)

lemma loopPlay_new:
  assumes "nfcTag r = Some (uid, len)"
    and "NFC_CHECK_INTERVAL \<le> loopNow r - lastNFCCheckTime (state w)"
    and "isNewTag (state w) uid len"
  shows "state (loopPlay r w)
      = (state (handleNewTag (uidToString uid len) uid len (nfcPage r)
           ((checkVolumeButtons (buttonsNow r) (upPin r) (downPin r) w)
             \<lparr>state := (state (checkVolumeButtons (buttonsNow r) (upPin r) (downPin r) w))
                \<lparr>lastTagDetectionTime := nfcNow r\<rparr>\<rparr>)))
        \<lparr>lastUID := memcpy (lastUID (state w)) uid len, lastUIDLength := len,
         isTagPresent := True, lastNFCCheckTime := loopNow r\<rparr>"
    and "trace (loopPlay r w)
      = trace (handleNewTag (uidToString uid len) uid len (nfcPage r)
           ((checkVolumeButtons (buttonsNow r) (upPin r) (downPin r) w)
             \<lparr>state := (state (checkVolumeButtons (buttonsNow r) (upPin r) (downPin r) w))
                \<lparr>lastTagDetectionTime := nfcNow r\<rparr>\<rparr>))"
proof -
  let ?w1 = "checkVolumeButtons (buttonsNow r) (upPin r) (downPin r) w"
  let ?w1t = "?w1\<lparr>state := (state ?w1)\<lparr>lastTagDetectionTime := nfcNow r\<rparr>\<rparr>"
  let ?h = "handleNewTag (uidToString uid len) uid len (nfcPage r) ?w1t"
  have n1: "isNewTag (state ?w1) uid len"
    using assms(3) by (simp add: isNewTag_def)
  have due: "NFC_CHECK_INTERVAL \<le> loopNow r - lastNFCCheckTime (state ?w1)"
    using assms(2) by simp
  have lu: "lastUID (state ?h) = lastUID (state w)"
    by (subst state_handleNewTag_frame) simp
  have c: "checkNFCTag (nfcTag r) (nfcPage r) (nfcNow r) ?w1
      = ?h\<lparr>state := (state ?h)\<lparr>lastUID := memcpy (lastUID (state w)) uid len,
                                     lastUIDLength := len, isTagPresent := True\<rparr>\<rparr>"
    unfolding assms(1) checkNFCTag_new [OF n1] Let_def lu ..
  have l: "loopPlay r w = handleGracePeriod (graceNow r)
      (?h\<lparr>state := (state ?h)\<lparr>lastUID := memcpy (lastUID (state w)) uid len,
                                 lastUIDLength := len, isTagPresent := True,
                                 lastNFCCheckTime := loopNow r\<rparr>\<rparr>)"
    using due by (simp add: loopPlay_def Let_def c)
  show "state (loopPlay r w)
      = (state ?h)\<lparr>lastUID := memcpy (lastUID (state w)) uid len, lastUIDLength := len,
         isTagPresent := True, lastNFCCheckTime := loopNow r\<rparr>"
    unfolding l by (simp add: handleGracePeriod_def)
  show "trace (loopPlay r w) = trace ?h"
    unfolding l by (simp add: handleGracePeriod_def)
qed

text \<open>The tag that is playing comes back while its song still plays.\<close>

lemma loopPlay_redetect:
  assumes "\<not> isTagPresent (state w)" and "isSongPlaying (state w)"
    and "nfcTag r = Some (uid, len)" and "unat len \<le> length uid"
    and "NFC_CHECK_INTERVAL \<le> loopNow r - lastNFCCheckTime (state w)"
    and "fst (readSongNumberFromTag (nfcPage r) w) = currentTrack (state w)"
    and "currentTrack (state w) \<noteq> - 1"
  shows "stopCommands (trace (loopPlay r w)) = stopCommands (trace w)
       \<and> playCommands (trace (loopPlay r w)) = playCommands (trace w)
       \<and> isSongPlaying (state (loopPlay r w))
       \<and> currentTrack (state (loopPlay r w)) = currentTrack (state w)
       \<and> isTagPresent (state (loopPlay r w))
       \<and> take (unat len) (lastUID (state (loopPlay r w))) = take (unat len) uid"
proof -
  let ?w1 = "checkVolumeButtons (buttonsNow r) (upPin r) (downPin r) w"
  let ?w1t = "?w1\<lparr>state := (state ?w1)\<lparr>lastTagDetectionTime := nfcNow r\<rparr>\<rparr>"
  let ?h = "handleNewTag (uidToString uid len) uid len (nfcPage r) ?w1t"
  have new: "isNewTag (state w) uid len"
    using assms(1) by (simp add: isNewTag_def)
  note l = loopPlay_new [OF assms(3,5) new]
  have p: "isSongPlaying (state ?w1t)" using assms(2) by simp
  have f: "fst (readSongNumberFromTag (nfcPage r) ?w1t) = currentTrack (state ?w1t)"
    using assms(6) readSong_fst_indep [of "nfcPage r" ?w1t w] by simp
  have t: "currentTrack (state ?w1t) \<noteq> - 1" using assms(7) by simp
  have h: "?h = emit [Serial TagDetectedBanner, Serial (UidLine (uidToString uid len))] ?w1t"
    using p f t by (rule handleNewTag_same)
  show ?thesis
    unfolding l h using assms(2,4)
    by (simp add: take_memcpy) (simp add: stopCommands_def playCommands_def)
qed

text \<open>A new tag whose record cannot be read or is not valid.\<close>

lemma loopPlay_new_invalid:
  assumes "nfcTag r = Some (uid, len)" and "unat len \<le> length uid"
    and "NFC_CHECK_INTERVAL \<le> loopNow r - lastNFCCheckTime (state w)"
    and "isNewTag (state w) uid len"
    and "fst (readSongNumberFromTag (nfcPage r) w) = - 1"
  shows "isTagPresent (state (loopPlay r w))
       \<and> take (unat len) (lastUID (state (loopPlay r w))) = take (unat len) uid
       \<and> lastUIDLength (state (loopPlay r w)) = len
       \<and> handlerRuns (trace (loopPlay r w)) = handlerRuns (trace w) + 1
       \<and> stopCommands (trace (loopPlay r w))
           = stopCommands (trace w) + (if isSongPlaying (state w) then 1 else 0)
       \<and> playCommands (trace (loopPlay r w)) = playCommands (trace w)
       \<and> \<not> isSongPlaying (state (loopPlay r w))"
proof -
  let ?w1 = "checkVolumeButtons (buttonsNow r) (upPin r) (downPin r) w"
  let ?w1t = "?w1\<lparr>state := (state ?w1)\<lparr>lastTagDetectionTime := nfcNow r\<rparr>\<rparr>"
  let ?h = "handleNewTag (uidToString uid len) uid len (nfcPage r) ?w1t"
  note l = loopPlay_new [OF assms(1,3,4)]
  have f: "fst (readSongNumberFromTag (nfcPage r) ?w1t) = - 1"
    using assms(5) readSong_fst_indep [of "nfcPage r" ?w1t w] by simp
  note h = handleNewTag_invalid [OF f, of "uidToString uid len" uid len]
  have hr: "handlerRuns (trace ?h) = handlerRuns (trace w) + 1"
    by (simp add: handlerRuns_handleNewTag)
  have sc: "stopCommands (trace ?h)
      = stopCommands (trace w) + (if isSongPlaying (state w) then 1 else 0)"
    unfolding h by (simp add: stopCommands_stopSong) (simp add: stopCommands_def)
  have pc: "playCommands (trace ?h) = playCommands (trace w)"
    unfolding h by simp (simp add: playCommands_def)
  have np: "\<not> isSongPlaying (state ?h)"
    unfolding h by simp
  show ?thesis
    unfolding l using assms(2) hr sc pc np by (simp add: take_memcpy)
qed

lemma waitForTag_iff:
  "waitForTag detect i = (\<exists>j. i \<le> j \<and> j < 50 \<and> detect j)"
proof (induction detect i rule: waitForTag.induct)
  case (1 detect i)
  show ?case
  proof (cases "i < 50")
    case False
    thus ?thesis by (subst waitForTag.simps) auto
  next
    case True
    note lt = True
    show ?thesis
    proof (cases "detect i")
      case True
      thus ?thesis using lt by (subst waitForTag.simps) auto
    next
      case False
      have "waitForTag detect (i + 1) = (\<exists>j. i + 1 \<le> j \<and> j < 50 \<and> detect j)"
        using "1.IH" [OF lt False] .
      also have "\<dots> = (\<exists>j. i \<le> j \<and> j < 50 \<and> detect j)"
      proof -
        have "\<And>j. (i + 1 \<le> j \<and> j < 50 \<and> detect j) = (i \<le> j \<and> j < 50 \<and> detect j)"
        proof -
          fix j
          show "(i + 1 \<le> j \<and> j < 50 \<and> detect j) = (i \<le> j \<and> j < 50 \<and> detect j)"
            using False by (cases "j = i") auto
        qed
        thus ?thesis by simp
      qed
      finally show ?thesis using lt False by (subst waitForTag.simps) simp
    qed
  qed
qed

lemma writeSongNumber_mem:
  "fst (writeSongNumber songNum detect writeOk (mem, w))
     = (if (\<exists>j < 50. detect j) \<and> writeOk then mem(4 := (0x53, 0x4F, 0x4E, songNum)) else mem)"
proof (cases "\<exists>j < 50. detect j")
  case True
  hence "waitForTag detect 0" by (simp add: waitForTag_iff)
  thus ?thesis using True
    by (cases writeOk) (simp_all add: writeSongNumber_def Let_def ntag2xx_WritePage_def)
next
  case False
  hence "\<not> waitForTag detect 0" by (simp add: waitForTag_iff)
  thus ?thesis using False
    by (auto simp add: writeSongNumber_def Let_def)
qed

lemma sampleInput_fields [simp]:
  "loopNow (sampleInput t tag pg) = t" "buttonsNow (sampleInput t tag pg) = t"
  "upPin (sampleInput t tag pg) = HIGH" "downPin (sampleInput t tag pg) = HIGH"
  "nfcTag (sampleInput t tag pg) = tag" "nfcPage (sampleInput t tag pg) = pg"
  "nfcNow (sampleInput t tag pg) = t" "graceNow (sampleInput t tag pg) = t"
  by (simp_all add: sampleInput_def)

text \<open>A new tag with a valid record while nothing plays.\<close>

lemma loopPlay_new_valid_idle:
  assumes "nfcTag r = Some (uid, len)" and "unat len \<le> length uid"
    and "NFC_CHECK_INTERVAL \<le> loopNow r - lastNFCCheckTime (state w)"
    and "isNewTag (state w) uid len"
    and "fst (readSongNumberFromTag (nfcPage r) w) = n" and "n \<noteq> - 1"
    and "\<not> isSongPlaying (state w)"
  shows "isTagPresent (state (loopPlay r w))
       \<and> take (unat len) (lastUID (state (loopPlay r w))) = take (unat len) uid
       \<and> lastUIDLength (state (loopPlay r w)) = len
       \<and> isSongPlaying (state (loopPlay r w))
       \<and> currentTrack (state (loopPlay r w)) = n
       \<and> handlerRuns (trace (loopPlay r w)) = handlerRuns (trace w) + 1
       \<and> playCommands (trace (loopPlay r w)) = playCommands (trace w) + 1
       \<and> stopCommands (trace (loopPlay r w)) = stopCommands (trace w)"
proof -
  let ?w1 = "checkVolumeButtons (buttonsNow r) (upPin r) (downPin r) w"
  let ?w1t = "?w1\<lparr>state := (state ?w1)\<lparr>lastTagDetectionTime := nfcNow r\<rparr>\<rparr>"
  let ?h = "handleNewTag (uidToString uid len) uid len (nfcPage r) ?w1t"
  note l = loopPlay_new [OF assms(1,3,4)]
  have f: "fst (readSongNumberFromTag (nfcPage r) ?w1t) = n"
    using assms(5) readSong_fst_indep [of "nfcPage r" ?w1t w] by simp
  have h: "?h = playSong n
      (emit [Serial TagDetectedBanner, Serial (UidLine (uidToString uid len))] ?w1t)"
    using assms(7) by (simp add: handleNewTag_valid [OF f assms(6)] Let_def)
  have hr: "handlerRuns (trace ?h) = handlerRuns (trace w) + 1"
    by (simp add: handlerRuns_handleNewTag)
  have pc: "playCommands (trace ?h) = playCommands (trace w) + 1"
    unfolding h by (simp add: trace_playSong) (simp add: playCommands_def)
  have sc: "stopCommands (trace ?h) = stopCommands (trace w)"
    unfolding h by (simp add: trace_playSong) (simp add: stopCommands_def)
  have st: "isSongPlaying (state ?h)" "currentTrack (state ?h) = n"
    unfolding h by (simp_all add: state_playSong)
  show ?thesis
    unfolding l using assms(2) hr pc sc st by (simp add: take_memcpy)
qed

lemma initial_state_facts:
  "\<not> isTagPresent (state initialSys)" "\<not> isSongPlaying (state initialSys)"
  "lastNFCCheckTime (state initialSys) = 0" "lastTagDetectionTime (state initialSys) = 0"
  "handlerRuns (trace initialSys) = 0" "playCommands (trace initialSys) = 0"
  "stopCommands (trace initialSys) = 0"
  by (simp_all add: initialSys_def initialState_def handlerRuns_def playCommands_def
        stopCommands_def)

lemma lastNFCCheckTime_loopPlay:
  "lastNFCCheckTime (state (loopPlay i w))
     = (if NFC_CHECK_INTERVAL \<le> loopNow i - lastNFCCheckTime (state w)
        then loopNow i else lastNFCCheckTime (state w))"
  by (simp add: loopPlay_def Let_def handleGracePeriod_def state_stopSong)

lemma playing7_facts:
  "\<not> isTagPresent (state (playSong 7 initialSys))"
  "isSongPlaying (state (playSong 7 initialSys))"
  "currentTrack (state (playSong 7 initialSys)) = 7"
  "lastTagDetectionTime (state (playSong 7 initialSys)) = 0"
  "lastNFCCheckTime (state (playSong 7 initialSys)) = 0"
  "stopCommands (trace (playSong 7 initialSys)) = 0"
  "handlerRuns (trace (playSong 7 initialSys)) = 0"
  "playCommands (trace (playSong 7 initialSys)) = 1"
  by (simp_all add: playSong_eq initialSys_def initialState_def stopCommands_def
        handlerRuns_def playCommands_def)

lemma volumesOk_adjustVolume:
  assumes "\<forall>v \<in> set (volumeCommands (trace w)). v \<le> 30"
  shows "\<forall>v \<in> set (volumeCommands (trace (adjustVolume delta w))). v \<le> 30"
proof -
  let ?v = "currentVolume (state (adjustVolume delta w))"
  have "volumeInRange ?v" by (rule volumeInRange_adjustVolume)
  hence r: "0 \<le> sint ?v" "sint ?v \<le> 30" by (simp_all add: volumeInRange_iff)
  have "(ucast ?v :: u8) \<le> 30" using r by (rule ucast_in_range_le)
  thus ?thesis using assms by (simp add: volumeCommands_adjustVolume)
qed

lemma volumesOk_checkVolumeButtons:
  assumes "\<forall>v \<in> set (volumeCommands (trace w)). v \<le> 30"
  shows "\<forall>v \<in> set (volumeCommands (trace (checkVolumeButtons now up down w))). v \<le> 30"
proof -
  note a = volumesOk_adjustVolume [OF assms, of 1]
  note b = volumesOk_adjustVolume [OF assms, of "- 1"]
  note c = volumesOk_adjustVolume [OF a, of "- 1"]
  show ?thesis
    using assms a b c by (simp add: checkVolumeButtons_eq Let_def)
qed

lemma volumeCommands_stopSong [simp]:
  "volumeCommands (trace (stopSong w)) = volumeCommands (trace w)"
  by (simp add: trace_stopSong)

lemma volumeCommands_checkNFCTag [simp]:
  "volumeCommands (trace (checkNFCTag tag rd now w)) = volumeCommands (trace w)"
proof (cases tag)
  case None
  thus ?thesis by (simp add: checkNFCTag_None)
next
  case (Some a)
  obtain uid len where a: "a = (uid, len)" by (cases a) auto
  show ?thesis unfolding Some a
    by (cases "isNewTag (state w) uid len")
       (simp_all add: checkNFCTag_same checkNFCTag_new Let_def volumeCommands_handleNewTag)
qed

lemma volumeCommands_handleGracePeriod [simp]:
  "volumeCommands (trace (handleGracePeriod now w)) = volumeCommands (trace w)"
  by (simp add: handleGracePeriod_def Let_def)

lemma volumesOk_loopPlay:
  assumes "\<forall>v \<in> set (volumeCommands (trace w)). v \<le> 30"
  shows "\<forall>v \<in> set (volumeCommands (trace (loopPlay i w))). v \<le> 30"
  using volumesOk_checkVolumeButtons [OF assms, of "buttonsNow i" "upPin i" "downPin i"]
  by (simp add: loopPlay_def Let_def)

lemma volumesOk_runLoop:
  "\<forall>v \<in> set (volumeCommands (trace w)). v \<le> 30 \<Longrightarrow>
     \<forall>v \<in> set (volumeCommands (trace (runLoop ins w))). v \<le> 30"
proof (induction ins arbitrary: w)
  case Nil
  thus ?case by simp
next
  case (Cons i ins)
  from Cons.IH [OF volumesOk_loopPlay [OF Cons.prems]] show ?case by simp
qed

lemma readSongTag_valid:
  assumes "\<exists>j < 50. detect j" and "1 \<le> unat n" and "unat n \<le> 99"
  shows "readSongTag detect (Some (0x53, 0x4F, 0x4E, n)) v
     = emit [Serial ReadPromptLine, Serial (SongNumberLine (ucast n))] v"
proof -
  have w: "waitForTag detect 0" using assms(1) by (simp add: waitForTag_iff)
  have r: "readSongNumberFromTag (Some (0x53, 0x4F, 0x4E, n)) (emit [Serial ReadPromptLine] v)
      = (ucast n, emit [Serial ReadPromptLine] v)"
    using assms(2,3) by (simp add: readSong_Some)
  show ?thesis
    using w by (simp add: readSongTag_def Let_def r ucast_u8_neq_minus1 del: trace_emit)
       (simp add: emit_def)
qed

text \<open>An iteration in which the poll is not due, while the tag counts as present.\<close>

lemma loopPlay_not_due:
  assumes "\<not> NFC_CHECK_INTERVAL \<le> loopNow i - lastNFCCheckTime (state w)"
    and "isTagPresent (state w)"
  shows "isTagPresent (state (loopPlay i w))
       \<and> lastNFCCheckTime (state (loopPlay i w)) = lastNFCCheckTime (state w)
       \<and> lastTagDetectionTime (state (loopPlay i w)) = lastTagDetectionTime (state w)
       \<and> isSongPlaying (state (loopPlay i w)) = isSongPlaying (state w)
       \<and> currentTrack (state (loopPlay i w)) = currentTrack (state w)
       \<and> stopCommands (trace (loopPlay i w)) = stopCommands (trace w)
       \<and> playCommands (trace (loopPlay i w)) = playCommands (trace w)
       \<and> handlerRuns (trace (loopPlay i w)) = handlerRuns (trace w)"
  using assms by (simp add: loopPlay_def Let_def handleGracePeriod_def)

lemma runLoop_not_due:
  "isTagPresent (state w) \<Longrightarrow>
   \<forall>i \<in> set early. \<not> NFC_CHECK_INTERVAL \<le> loopNow i - lastNFCCheckTime (state w) \<Longrightarrow>
     isTagPresent (state (runLoop early w))
     \<and> lastNFCCheckTime (state (runLoop early w)) = lastNFCCheckTime (state w)
     \<and> lastTagDetectionTime (state (runLoop early w)) = lastTagDetectionTime (state w)
     \<and> isSongPlaying (state (runLoop early w)) = isSongPlaying (state w)
     \<and> currentTrack (state (runLoop early w)) = currentTrack (state w)
     \<and> stopCommands (trace (runLoop early w)) = stopCommands (trace w)
     \<and> playCommands (trace (runLoop early w)) = playCommands (trace w)
     \<and> handlerRuns (trace (runLoop early w)) = handlerRuns (trace w)"
proof (induction early arbitrary: w)
  case Nil
  thus ?case by simp
next
  case (Cons i early)
  have nd: "\<not> NFC_CHECK_INTERVAL \<le> loopNow i - lastNFCCheckTime (state w)"
    using Cons.prems(2) by simp
  note s = loopPlay_not_due [OF nd Cons.prems(1)]
  have p: "isTagPresent (state (loopPlay i w))" using s by simp
  have "\<forall>j \<in> set early.
      \<not> NFC_CHECK_INTERVAL \<le> loopNow j - lastNFCCheckTime (state (loopPlay i w))"
    using Cons.prems(2) s by simp
  from Cons.IH [OF p this] show ?case using s by simp
qed

text \<open>
  An iteration that finds no tag, when the tag already counts as absent or the poll is
  due (and so registers the removal).
\<close>

lemma loopPlay_gone:
  assumes "nfcTag i = None"
    and "\<not> isTagPresent (state w)
         \<or> NFC_CHECK_INTERVAL \<le> loopNow i - lastNFCCheckTime (state w)"
  shows "\<not> isTagPresent (state (loopPlay i w))"
    and "lastTagDetectionTime (state (loopPlay i w)) = lastTagDetectionTime (state w)"
    and "playCommands (trace (loopPlay i w)) = playCommands (trace w)"
    and "handlerRuns (trace (loopPlay i w)) = handlerRuns (trace w)"
    and "isSongPlaying (state w)
           \<and> TAG_GRACE_PERIOD < graceNow i - lastTagDetectionTime (state w) \<Longrightarrow>
         stopCommands (trace (loopPlay i w)) = stopCommands (trace w) + 1
         \<and> \<not> isSongPlaying (state (loopPlay i w))"
    and "\<not> (isSongPlaying (state w)
           \<and> TAG_GRACE_PERIOD < graceNow i - lastTagDetectionTime (state w)) \<Longrightarrow>
         stopCommands (trace (loopPlay i w)) = stopCommands (trace w)
         \<and> isSongPlaying (state (loopPlay i w)) = isSongPlaying (state w)
         \<and> currentTrack (state (loopPlay i w)) = currentTrack (state w)"
  using assms
  by (auto simp add: loopPlay_def Let_def checkNFCTag_None handleGracePeriod_def
        state_stopSong stopCommands_stopSong)

text \<open>An iteration without a tag, within the grace period, whatever the flag.\<close>

lemma loopPlay_quiet:
  assumes "nfcTag i = None"
    and "graceNow i - lastTagDetectionTime (state w) \<le> TAG_GRACE_PERIOD"
  shows "stopCommands (trace (loopPlay i w)) = stopCommands (trace w)
       \<and> playCommands (trace (loopPlay i w)) = playCommands (trace w)
       \<and> handlerRuns (trace (loopPlay i w)) = handlerRuns (trace w)
       \<and> isSongPlaying (state (loopPlay i w)) = isSongPlaying (state w)
       \<and> currentTrack (state (loopPlay i w)) = currentTrack (state w)
       \<and> lastTagDetectionTime (state (loopPlay i w)) = lastTagDetectionTime (state w)"
proof -
  have g: "\<not> TAG_GRACE_PERIOD < graceNow i - lastTagDetectionTime (state w)"
    using assms(2) by (simp add: not_less)
  show ?thesis
    using assms(1) g
    by (simp add: loopPlay_def Let_def checkNFCTag_None handleGracePeriod_def)
qed

lemma runLoop_quiet:
  "\<forall>i \<in> set pre. nfcTag i = None
       \<and> graceNow i - lastTagDetectionTime (state w) \<le> TAG_GRACE_PERIOD \<Longrightarrow>
     stopCommands (trace (runLoop pre w)) = stopCommands (trace w)
     \<and> playCommands (trace (runLoop pre w)) = playCommands (trace w)
     \<and> handlerRuns (trace (runLoop pre w)) = handlerRuns (trace w)
     \<and> isSongPlaying (state (runLoop pre w)) = isSongPlaying (state w)
     \<and> currentTrack (state (runLoop pre w)) = currentTrack (state w)
     \<and> lastTagDetectionTime (state (runLoop pre w)) = lastTagDetectionTime (state w)"
proof (induction pre arbitrary: w)
  case Nil
  thus ?case by simp
next
  case (Cons i pre)
  have n: "nfcTag i = None"
    and g: "graceNow i - lastTagDetectionTime (state w) \<le> TAG_GRACE_PERIOD"
    using Cons.prems by simp_all
  note s = loopPlay_quiet [OF n g]
  have "\<forall>j \<in> set pre. nfcTag j = None
       \<and> graceNow j - lastTagDetectionTime (state (loopPlay i w)) \<le> TAG_GRACE_PERIOD"
    using Cons.prems s by simp
  from Cons.IH [OF this] show ?case using s by simp
qed

text \<open>While the tag held before still answers: the invariant in terms of \<open>uidsMatch\<close>.\<close>

lemma loopPlay_held_match:
  assumes "isTagPresent (state w)"
    and "uidsMatch uid (lastUID (state w)) len"
    and "nfcTag i = Some (uid', len)"
    and "take (unat len) uid' = take (unat len) uid"
  shows "isTagPresent (state (loopPlay i w))
       \<and> uidsMatch uid (lastUID (state (loopPlay i w))) len
       \<and> stopCommands (trace (loopPlay i w)) = stopCommands (trace w)
       \<and> playCommands (trace (loopPlay i w)) = playCommands (trace w)
       \<and> handlerRuns (trace (loopPlay i w)) = handlerRuns (trace w)
       \<and> isSongPlaying (state (loopPlay i w)) = isSongPlaying (state w)
       \<and> currentTrack (state (loopPlay i w)) = currentTrack (state w)"
proof -
  let ?w1 = "checkVolumeButtons (buttonsNow i) (upPin i) (downPin i) w"
  have a: "\<forall>j < unat len. uid ! j = lastUID (state w) ! j"
    using assms(2) by (simp add: uidsMatch_iff)
  have "\<forall>j < unat len. uid' ! j = lastUID (state ?w1) ! j"
  proof (intro allI impI)
    fix j
    assume j: "j < unat len"
    have "uid' ! j = uid ! j" using assms(4) j by (rule take_nth_eq)
    thus "uid' ! j = lastUID (state ?w1) ! j" using a j by simp
  qed
  hence "uidsMatch uid' (lastUID (state ?w1)) len"
    by (simp add: uidsMatch_iff)
  hence nn: "\<not> isNewTag (state ?w1) uid' len"
    using assms(1) by (simp add: isNewTag_def)
  show ?thesis
    using assms(1,2)
    by (simp add: loopPlay_def Let_def assms(3) checkNFCTag_same [OF nn] handleGracePeriod_def)
qed

lemma runLoop_held_match:
  "isTagPresent (state w) \<Longrightarrow> uidsMatch uid (lastUID (state w)) len \<Longrightarrow>
   \<forall>i \<in> set ins. \<exists>uid'. nfcTag i = Some (uid', len)
       \<and> take (unat len) uid' = take (unat len) uid \<Longrightarrow>
     stopCommands (trace (runLoop ins w)) = stopCommands (trace w)
     \<and> playCommands (trace (runLoop ins w)) = playCommands (trace w)
     \<and> handlerRuns (trace (runLoop ins w)) = handlerRuns (trace w)
     \<and> isSongPlaying (state (runLoop ins w)) = isSongPlaying (state w)
     \<and> currentTrack (state (runLoop ins w)) = currentTrack (state w)
     \<and> isTagPresent (state (runLoop ins w))"
proof (induction ins arbitrary: w)
  case Nil
  thus ?case by simp
next
  case (Cons i ins)
  obtain uid' where t: "nfcTag i = Some (uid', len)"
    and e: "take (unat len) uid' = take (unat len) uid"
    using Cons.prems(3) by auto
  note s = loopPlay_held_match [OF Cons.prems(1,2) t e]
  have "\<forall>j \<in> set ins. \<exists>uid'. nfcTag j = Some (uid', len)
       \<and> take (unat len) uid' = take (unat len) uid"
    using Cons.prems(3) by simp
  from Cons.IH [OF _ _ this, of "loopPlay i w"] s show ?case by simp
qed

text \<open>
  A due poll detects a tag whose record is the track that is playing, whether or not
  the tag counted as present before.
\<close>

lemma loopPlay_redetect_any:
  assumes "isSongPlaying (state w)"
    and "nfcTag r = Some (uid, len)" and "unat len \<le> length uid"
    and "NFC_CHECK_INTERVAL \<le> loopNow r - lastNFCCheckTime (state w)"
    and "fst (readSongNumberFromTag (nfcPage r) w) = currentTrack (state w)"
    and "currentTrack (state w) \<noteq> - 1"
  shows "stopCommands (trace (loopPlay r w)) = stopCommands (trace w)
       \<and> playCommands (trace (loopPlay r w)) = playCommands (trace w)
       \<and> isSongPlaying (state (loopPlay r w))
       \<and> currentTrack (state (loopPlay r w)) = currentTrack (state w)
       \<and> isTagPresent (state (loopPlay r w))
       \<and> uidsMatch uid (lastUID (state (loopPlay r w))) len
       \<and> lastTagDetectionTime (state (loopPlay r w)) = nfcNow r"
proof (cases "isNewTag (state w) uid len")
  case True
  let ?w1 = "checkVolumeButtons (buttonsNow r) (upPin r) (downPin r) w"
  let ?w1t = "?w1\<lparr>state := (state ?w1)\<lparr>lastTagDetectionTime := nfcNow r\<rparr>\<rparr>"
  let ?h = "handleNewTag (uidToString uid len) uid len (nfcPage r) ?w1t"
  note l = loopPlay_new [OF assms(2,4) True]
  have p: "isSongPlaying (state ?w1t)" using assms(1) by simp
  have f: "fst (readSongNumberFromTag (nfcPage r) ?w1t) = currentTrack (state ?w1t)"
    using assms(5) readSong_fst_indep [of "nfcPage r" ?w1t w] by simp
  have t: "currentTrack (state ?w1t) \<noteq> - 1" using assms(6) by simp
  have h: "?h = emit [Serial TagDetectedBanner, Serial (UidLine (uidToString uid len))] ?w1t"
    using p f t by (rule handleNewTag_same)
  have m: "uidsMatch uid (memcpy (lastUID (state w)) uid len) len"
    using assms(3) by (simp add: uidsMatch_iff memcpy_nth)
  show ?thesis
    unfolding l h using assms(1) m
    by simp (simp add: stopCommands_def playCommands_def)
next
  case False
  let ?w1 = "checkVolumeButtons (buttonsNow r) (upPin r) (downPin r) w"
  have nn: "\<not> isNewTag (state ?w1) uid len"
    using False by (simp add: isNewTag_def)
  have pm: "isTagPresent (state w)" "uidsMatch uid (lastUID (state w)) len"
    using False by (simp_all add: isNewTag_def)
  show ?thesis
    using assms(1,4) pm
    by (simp add: loopPlay_def Let_def assms(2) checkNFCTag_same [OF nn] handleGracePeriod_def)
qed

lemma lastTagDetectionTime_loopPlay_detect:
  assumes "nfcTag r = Some (uid, len)"
    and "NFC_CHECK_INTERVAL \<le> loopNow r - lastNFCCheckTime (state w)"
  shows "lastTagDetectionTime (state (loopPlay r w)) = nfcNow r"
proof (cases "isNewTag (state w) uid len")
  case True
  show ?thesis
    unfolding loopPlay_new(1) [OF assms True]
    by (subst state_handleNewTag_frame) simp
next
  case False
  let ?w1 = "checkVolumeButtons (buttonsNow r) (upPin r) (downPin r) w"
  have nn: "\<not> isNewTag (state ?w1) uid len"
    using False by (simp add: isNewTag_def)
  show ?thesis
    using assms(2)
    by (simp add: loopPlay_def Let_def assms(1) checkNFCTag_same [OF nn] handleGracePeriod_def)
qed

lemma tagPlaying_facts:
  "isTagPresent (state tagPlaying)"
  "isSongPlaying (state tagPlaying)"
  "currentTrack (state tagPlaying) = 7"
  "lastTagDetectionTime (state tagPlaying) = 1000"
  "lastNFCCheckTime (state tagPlaying) = 1000"
  "stopCommands (trace tagPlaying) = 0"
  "playCommands (trace tagPlaying) = 1"
proof -
  define a where "a = sampleInput 1000 (Some (exampleUid, 7)) (Some (0x53, 0x4F, 0x4E, 7))"
  have w: "tagPlaying = loopPlay a initialSys" by (simp add: tagPlaying_def a_def)
  have a1: "nfcTag a = Some (exampleUid, 7)" by (simp add: a_def)
  have a2: "unat (7 :: u8) \<le> length exampleUid" by (simp add: exampleUid_def)
  have a3: "NFC_CHECK_INTERVAL \<le> loopNow a - lastNFCCheckTime (state initialSys)"
    by (simp add: a_def initial_state_facts NFC_CHECK_INTERVAL_def)
  have a4: "isNewTag (state initialSys) exampleUid 7"
    by (simp add: isNewTag_def initial_state_facts)
  have a5: "fst (readSongNumberFromTag (nfcPage a) initialSys) = 7"
    by (simp add: a_def readSong_Some)
  have a6: "(7 :: cint) \<noteq> - 1" by simp
  note s = loopPlay_new_valid_idle [OF a1 a2 a3 a4 a5 a6 initial_state_facts(2)]
  have t: "lastTagDetectionTime (state (loopPlay a initialSys)) = 1000"
    using lastTagDetectionTime_loopPlay_detect [OF a1 a3] by (simp add: a_def)
  have c: "lastNFCCheckTime (state (loopPlay a initialSys)) = 1000"
    using a3 by (simp add: lastNFCCheckTime_loopPlay) (simp add: a_def)
  show "isTagPresent (state tagPlaying)" unfolding w using s by blast
  show "isSongPlaying (state tagPlaying)" unfolding w using s by blast
  show "currentTrack (state tagPlaying) = 7" unfolding w using s by blast
  show "lastTagDetectionTime (state tagPlaying) = 1000" unfolding w by (rule t)
  show "lastNFCCheckTime (state tagPlaying) = 1000" unfolding w by (rule c)
  show "stopCommands (trace tagPlaying) = 0"
    unfolding w using s by (simp add: initial_state_facts)
  show "playCommands (trace tagPlaying) = 1"
    unfolding w using s by (simp add: initial_state_facts)
qed

section \<open>Playback state, tag records and tag presence: the claims\<close>

text \<open>
  Claim C9. \<open>isSongPlaying\<close> holds exactly when \<open>currentTrack\<close> is not 0: in the
  initial state, and after \<open>stopSong\<close>, after \<open>playSong\<close> of a track number other
  than 0 (the song numbers are 1..99), after \<open>handleNewTag\<close>, \<open>checkNFCTag\<close>,
  \<open>handleGracePeriod\<close>, \<open>checkVolumeButtons\<close> and a whole loop iteration whenever it
  held before; hence after every run of the loop from the initial state.
\<close>

theorem playback_invariant_preserved:
  "playbackInvariant (state initialSys)
   \<and> (playbackInvariant (state w) \<longrightarrow>
        playbackInvariant (state (stopSong w))
      \<and> (trackNumber \<noteq> 0 \<longrightarrow> playbackInvariant (state (playSong trackNumber w)))
      \<and> playbackInvariant (state (handleNewTag uid rawUID len rd w))
      \<and> playbackInvariant (state (checkNFCTag tag rd now w))
      \<and> playbackInvariant (state (handleGracePeriod now w))
      \<and> playbackInvariant (state (checkVolumeButtons now up down w))
      \<and> playbackInvariant (state (loopPlay i w))
      \<and> playbackInvariant (state (runLoop ins w)))
   \<and> playbackInvariant (state (runLoop ins initialSys))"
  using playbackInvariant_initial playbackInvariant_stopSong [of w]
    playbackInvariant_playSong [of trackNumber w]
    playbackInvariant_handleNewTag [of w uid rawUID len rd]
    playbackInvariant_checkNFCTag [of w tag rd now]
    playbackInvariant_handleGracePeriod [of w now]
    playbackInvariant_checkVolumeButtons [of w now up down]
    playbackInvariant_loopPlay [of w i]
    playbackInvariant_runLoop [of w ins]
    playbackInvariant_runLoop [OF playbackInvariant_initial, of ins]
  by blast

theorem playback_invariant_preserved_witness:
  "playbackInvariant (state (playSong 7 initialSys))
   \<and> isSongPlaying (state (playSong 7 initialSys))
   \<and> playbackInvariant (state (stopSong (playSong 7 initialSys)))
   \<and> \<not> isSongPlaying (state (stopSong (playSong 7 initialSys)))
   \<and> playbackInvariant (state (runLoop
         [sampleInput 1000 (Some ([0x04, 0xA1, 0xB2, 0xC3, 0xD4, 0xE5, 0x80], 7))
           (Some (0x53, 0x4F, 0x4E, 7))]
         initialSys))"
proof -
  have a: "(7 :: cint) \<noteq> 0" by simp
  have p: "playbackInvariant (state (playSong 7 initialSys))"
    using playback_invariant_preserved [of initialSys 7] a by blast
  have s: "playbackInvariant (state (stopSong (playSong 7 initialSys)))"
    using playback_invariant_preserved [of "playSong 7 initialSys"] p by blast
  have l: "playbackInvariant (state (runLoop
        [sampleInput 1000 (Some ([0x04, 0xA1, 0xB2, 0xC3, 0xD4, 0xE5, 0x80], 7)) (Some (0x53, 0x4F, 0x4E, 7))]
        initialSys))"
    using playback_invariant_preserved [of initialSys 7 "[]" "[]" 0 None None 0 LOW LOW
        "sampleInput 1000 (Some ([0x04, 0xA1, 0xB2, 0xC3, 0xD4, 0xE5, 0x80], 7))
                (Some (0x53, 0x4F, 0x4E, 7))" "[sampleInput 1000 (Some ([0x04, 0xA1, 0xB2, 0xC3, 0xD4, 0xE5, 0x80], 7)) (Some (0x53, 0x4F, 0x4E, 7))]"]
    by blast
  show ?thesis
    using p s l by (simp add: playing7_facts)
qed

text \<open>
  Claim C8. For a song number \<open>n\<close> in 1..99, when a tag answers within the 50 attempts
  and the write succeeds, \<open>writeSongNumber\<close> leaves page 4 of the tag holding
  \<open>'S','O','N',n\<close> (the other pages as they were), and \<open>readSongNumberFromTag\<close> on a
  successful read of that page returns \<open>n\<close>, printing nothing; \<open>readSongTag\<close>, the
  \<open>read\<close> command, then reports \<open>n\<close>.
\<close>

theorem song_record_round_trip:
  assumes "1 \<le> unat n" and "unat n \<le> 99" and "\<exists>j < 50. detect j"
  shows "fst (writeSongNumber n detect True (mem, w)) 4 = (0x53, 0x4F, 0x4E, n)
       \<and> (\<forall>pg. pg \<noteq> 4 \<longrightarrow> fst (writeSongNumber n detect True (mem, w)) pg = mem pg)
       \<and> readSongNumberFromTag
            (ntag2xx_ReadPage 4 True (fst (writeSongNumber n detect True (mem, w)))) v
           = (ucast n, v)
       \<and> sint (ucast n :: cint) = int (unat n)
       \<and> readSongNumberFromTag (Some (0x53, 0x4F, 0x4E, n)) v = (ucast n, v)
       \<and> readSongTag detect
            (ntag2xx_ReadPage 4 True (fst (writeSongNumber n detect True (mem, w)))) v
           = emit [Serial ReadPromptLine, Serial (SongNumberLine (ucast n))] v"
proof -
  have m: "fst (writeSongNumber n detect True (mem, w)) = mem(4 := (0x53, 0x4F, 0x4E, n))"
    using assms(3) by (simp add: writeSongNumber_mem)
  have r: "readSongNumberFromTag (Some (0x53, 0x4F, 0x4E, n)) v = (ucast n, v)"
    using assms(1,2) by (simp add: readSong_Some)
  have s: "sint (ucast n :: cint) = int (unat n)"
    unfolding sint_ucast_u8 by (rule uint_nat)
  note t = readSongTag_valid [OF assms(3,1,2), of v]
  show ?thesis
    unfolding m using r s t by (simp add: ntag2xx_ReadPage_def)
qed

theorem song_record_round_trip_witness:
  "fst (writeSongNumber 7 (\<lambda>i. i = 3) True (\<lambda>pg. (0, 0, 0, 0), initialSys)) 4
     = (0x53, 0x4F, 0x4E, 7)
   \<and> readSongNumberFromTag
        (ntag2xx_ReadPage 4 True
          (fst (writeSongNumber 7 (\<lambda>i. i = 3) True (\<lambda>pg. (0, 0, 0, 0), initialSys))))
        initialSys
      = (7, initialSys)"
proof -
  have a: "1 \<le> unat (7 :: u8)" and b: "unat (7 :: u8) \<le> 99" by simp_all
  have c: "\<exists>j < 50. (\<lambda>i :: nat. i = 3) j" by simp
  show ?thesis
    using song_record_round_trip [OF a b c, of "\<lambda>pg. (0, 0, 0, 0)" initialSys initialSys]
    by simp
qed

text \<open>
  Claim C1 does not hold of the code: \<open>uidsMatch\<close> compares the first \<open>uidLength\<close>
  bytes of the detected UID with \<open>lastUID\<close> and never looks at \<open>lastUIDLength\<close>. Tag A
  with the 7-byte UID 04:A1:B2:C3:D4:E5:80 and song 7 is detected at one poll, tag B with
  the 4-byte UID 04:A1:B2:C3 and song 9 at the next: B counts as the same tag. The handler
  ran once (for A), one play command was sent, track 7 is still the current one, and the
  stored length is still 7.
\<close>

theorem shorter_uid_prefix_classified_same:
  "handlerRuns (trace (runLoop
      [sampleInput 1000 (Some ([0x04, 0xA1, 0xB2, 0xC3, 0xD4, 0xE5, 0x80], 7))
         (Some (0x53, 0x4F, 0x4E, 7)),
       sampleInput 1200 (Some ([0x04, 0xA1, 0xB2, 0xC3, 0, 0, 0], 4))
         (Some (0x53, 0x4F, 0x4E, 9))] initialSys)) = 1
   \<and> playCommands (trace (runLoop
      [sampleInput 1000 (Some ([0x04, 0xA1, 0xB2, 0xC3, 0xD4, 0xE5, 0x80], 7))
         (Some (0x53, 0x4F, 0x4E, 7)),
       sampleInput 1200 (Some ([0x04, 0xA1, 0xB2, 0xC3, 0, 0, 0], 4))
         (Some (0x53, 0x4F, 0x4E, 9))] initialSys)) = 1
   \<and> currentTrack (state (runLoop
      [sampleInput 1000 (Some ([0x04, 0xA1, 0xB2, 0xC3, 0xD4, 0xE5, 0x80], 7))
         (Some (0x53, 0x4F, 0x4E, 7)),
       sampleInput 1200 (Some ([0x04, 0xA1, 0xB2, 0xC3, 0, 0, 0], 4))
         (Some (0x53, 0x4F, 0x4E, 9))] initialSys)) = 7
   \<and> lastUIDLength (state (runLoop
      [sampleInput 1000 (Some ([0x04, 0xA1, 0xB2, 0xC3, 0xD4, 0xE5, 0x80], 7))
         (Some (0x53, 0x4F, 0x4E, 7)),
       sampleInput 1200 (Some ([0x04, 0xA1, 0xB2, 0xC3, 0, 0, 0], 4))
         (Some (0x53, 0x4F, 0x4E, 9))] initialSys)) = 7
   \<and> uidsMatch [0x04, 0xA1, 0xB2, 0xC3, 0, 0, 0] [0x04, 0xA1, 0xB2, 0xC3, 0xD4, 0xE5, 0x80] 4"
proof -
  define uidA :: "u8 list" where "uidA = [0x04, 0xA1, 0xB2, 0xC3, 0xD4, 0xE5, 0x80]"
  define uidB :: "u8 list" where "uidB = [0x04, 0xA1, 0xB2, 0xC3, 0, 0, 0]"
  define a where "a = sampleInput 1000 (Some (uidA, 7)) (Some (0x53, 0x4F, 0x4E, 7))"
  define b where "b = sampleInput 1200 (Some (uidB, 4)) (Some (0x53, 0x4F, 0x4E, 9))"
  define w1 where "w1 = loopPlay a initialSys"
  have a1: "nfcTag a = Some (uidA, 7)" by (simp add: a_def)
  have a2: "unat (7 :: u8) \<le> length uidA" by (simp add: uidA_def)
  have a3: "NFC_CHECK_INTERVAL \<le> loopNow a - lastNFCCheckTime (state initialSys)"
    by (simp add: a_def initial_state_facts NFC_CHECK_INTERVAL_def)
  have a4: "isNewTag (state initialSys) uidA 7"
    by (simp add: isNewTag_def initial_state_facts)
  have a5: "fst (readSongNumberFromTag (nfcPage a) initialSys) = 7"
    by (simp add: a_def readSong_Some)
  have a6: "(7 :: cint) \<noteq> - 1" by simp
  note s1 = loopPlay_new_valid_idle [OF a1 a2 a3 a4 a5 a6 initial_state_facts(2),
      folded w1_def]
  have p: "isTagPresent (state w1)" using s1 by blast
  have "take (unat (7 :: u8)) (lastUID (state w1)) = take (unat (7 :: u8)) uidA"
    using s1 by blast
  hence "take 4 (take 7 (lastUID (state w1))) = take 4 (take 7 uidA)" by simp
  hence t4: "take (unat (4 :: u8)) (lastUID (state w1)) = take (unat (4 :: u8)) uidA"
    by simp
  have b1: "nfcTag b = Some (uidB, 4)" by (simp add: b_def)
  have b2: "take (unat (4 :: u8)) uidB = take (unat (4 :: u8)) uidA"
    by (simp add: uidA_def uidB_def)
  note s2 = loopPlay_held [OF p t4 b1 b2]
  have m: "uidsMatch uidB uidA 4"
    unfolding uidsMatch_iff
  proof (intro allI impI)
    fix j
    assume "j < unat (4 :: u8)"
    with b2 show "uidB ! j = uidA ! j" by (rule take_nth_eq)
  qed
  have r: "runLoop [a, b] initialSys = loopPlay b w1" by (simp add: w1_def)
  have h: "handlerRuns (trace (loopPlay b w1)) = 1"
    using s1 s2 initial_state_facts(5) by simp
  have pc: "playCommands (trace (loopPlay b w1)) = 1"
    using s1 s2 initial_state_facts(6) by simp
  have ct: "currentTrack (state (loopPlay b w1)) = 7"
    using s1 s2 by simp
  have ll: "lastUIDLength (state (loopPlay b w1)) = 7"
    using s1 s2 by simp
  have "handlerRuns (trace (runLoop [a, b] initialSys)) = 1
      \<and> playCommands (trace (runLoop [a, b] initialSys)) = 1
      \<and> currentTrack (state (runLoop [a, b] initialSys)) = 7
      \<and> lastUIDLength (state (runLoop [a, b] initialSys)) = 7
      \<and> uidsMatch uidB uidA 4"
    unfolding r using h pc ct ll m by blast
  thus ?thesis
    unfolding a_def b_def uidA_def uidB_def .
qed

text \<open>
  Claim C2, as amended. A tag is present and its song is playing (state \<open>w\<close>, whose
  \<open>lastTagDetectionTime\<close> holds the last detection). Iterations \<open>early\<close> in which the
  poll is not yet due change nothing. Then the tag is gone: in the iterations \<open>pre\<close> no tag
  answers and \<open>millis() - lastTagDetectionTime\<close> (32-bit wrapping) is at most 2000. Over
  all of them, the due poll that clears \<open>isTagPresent\<close> included, no stop command is sent
  and the song plays on. The first iteration \<open>x\<close> in which the elapsed time exceeds 2000
  sends exactly one stop command; whatever iterations without a tag follow (\<open>post\<close>),
  the count stays at one and nothing is played. If instead a tag answers again at a due
  poll (iteration \<open>r\<close>) and the record read from it is the track that is playing, and
  it then stays (\<open>held\<close>), no stop and no play command is sent over the whole run and
  the track plays on. While a tag is present \<open>handleGracePeriod\<close> does nothing.
\<close>

theorem tag_removal_stops_once:
  assumes "isTagPresent (state w)" and "isSongPlaying (state w)"
    and "\<forall>i \<in> set early.
           \<not> NFC_CHECK_INTERVAL \<le> loopNow i - lastNFCCheckTime (state w)"
    and "\<forall>i \<in> set pre. nfcTag i = None
           \<and> graceNow i - lastTagDetectionTime (state w) \<le> TAG_GRACE_PERIOD"
  shows "stopCommands (trace (runLoop (early @ pre) w)) = stopCommands (trace w)
       \<and> playCommands (trace (runLoop (early @ pre) w)) = playCommands (trace w)
       \<and> isSongPlaying (state (runLoop (early @ pre) w))
       \<and> currentTrack (state (runLoop (early @ pre) w)) = currentTrack (state w)
       \<and> (pre \<noteq> []
            \<and> NFC_CHECK_INTERVAL \<le> loopNow (hd pre) - lastNFCCheckTime (state w) \<longrightarrow>
          \<not> isTagPresent (state (runLoop (early @ pre) w)))
       \<and> (nfcTag x = None
            \<and> TAG_GRACE_PERIOD < graceNow x - lastTagDetectionTime (state w)
            \<and> NFC_CHECK_INTERVAL \<le> loopNow (hd (pre @ [x])) - lastNFCCheckTime (state w)
            \<and> (\<forall>i \<in> set post. nfcTag i = None) \<longrightarrow>
          stopCommands (trace (runLoop (early @ pre @ [x]) w)) = stopCommands (trace w) + 1
          \<and> \<not> isSongPlaying (state (runLoop (early @ pre @ [x]) w))
          \<and> stopCommands (trace (runLoop (early @ pre @ x # post) w))
              = stopCommands (trace w) + 1
          \<and> playCommands (trace (runLoop (early @ pre @ x # post) w))
              = playCommands (trace w))
       \<and> (nfcTag r = Some (uid, len) \<and> unat len \<le> length uid
            \<and> NFC_CHECK_INTERVAL
                 \<le> loopNow r - lastNFCCheckTime (state (runLoop (early @ pre) w))
            \<and> fst (readSongNumberFromTag (nfcPage r) w) = currentTrack (state w)
            \<and> currentTrack (state w) \<noteq> - 1
            \<and> (\<forall>i \<in> set held. \<exists>uid'. nfcTag i = Some (uid', len)
                  \<and> take (unat len) uid' = take (unat len) uid) \<longrightarrow>
          stopCommands (trace (runLoop (early @ pre @ r # held) w)) = stopCommands (trace w)
          \<and> playCommands (trace (runLoop (early @ pre @ r # held) w))
              = playCommands (trace w)
          \<and> isSongPlaying (state (runLoop (early @ pre @ r # held) w))
          \<and> currentTrack (state (runLoop (early @ pre @ r # held) w))
              = currentTrack (state w))
       \<and> (isTagPresent (state v) \<longrightarrow> handleGracePeriod now v = v)"
proof -
  let ?v = "runLoop early w"
  let ?w1 = "runLoop (early @ pre) w"
  note e = runLoop_not_due [OF assms(1,3)]
  have e1: "isTagPresent (state ?v)"
    and e2: "lastNFCCheckTime (state ?v) = lastNFCCheckTime (state w)"
    and e3: "lastTagDetectionTime (state ?v) = lastTagDetectionTime (state w)"
    and e4: "isSongPlaying (state ?v)"
    and e5: "currentTrack (state ?v) = currentTrack (state w)"
    and e6: "stopCommands (trace ?v) = stopCommands (trace w)"
    and e7: "playCommands (trace ?v) = playCommands (trace w)"
    using e assms(2) by simp_all
  have pre_v: "\<forall>i \<in> set pre. nfcTag i = None
           \<and> graceNow i - lastTagDetectionTime (state ?v) \<le> TAG_GRACE_PERIOD"
    using assms(4) e3 by simp
  have w1: "?w1 = runLoop pre ?v" by (simp add: runLoop_append)
  note q = runLoop_quiet [OF pre_v]
  have g1: "stopCommands (trace ?w1) = stopCommands (trace w)"
    and g2: "playCommands (trace ?w1) = playCommands (trace w)"
    and g3: "isSongPlaying (state ?w1)"
    and g4: "currentTrack (state ?w1) = currentTrack (state w)"
    and g6: "lastTagDetectionTime (state ?w1) = lastTagDetectionTime (state w)"
    unfolding w1 using q e3 e4 e5 e6 e7 by simp_all
  have R: "pre \<noteq> []
            \<and> NFC_CHECK_INTERVAL \<le> loopNow (hd pre) - lastNFCCheckTime (state w) \<longrightarrow>
          \<not> isTagPresent (state ?w1)"
  proof
    assume h: "pre \<noteq> []
            \<and> NFC_CHECK_INTERVAL \<le> loopNow (hd pre) - lastNFCCheckTime (state w)"
    then obtain f rest where pr: "pre = f # rest" by (cases pre) auto
    have fn: "nfcTag f = None" using assms(4) pr by simp
    have fd: "\<not> isTagPresent (state ?v)
         \<or> NFC_CHECK_INTERVAL \<le> loopNow f - lastNFCCheckTime (state ?v)"
      using h pr e2 by simp
    note s = loopPlay_gone(1,2) [OF fn fd]
    have "\<forall>i \<in> set rest. nfcTag i = None
       \<and> graceNow i - lastTagDetectionTime (state (loopPlay f ?v)) \<le> TAG_GRACE_PERIOD"
      using assms(4) pr s(2) e3 by simp
    from runLoop_within_grace [OF s(1) this]
    have "\<not> isTagPresent (state (runLoop rest (loopPlay f ?v)))" by simp
    thus "\<not> isTagPresent (state ?w1)" by (simp add: pr runLoop_append)
  qed
  have A: "nfcTag x = None
            \<and> TAG_GRACE_PERIOD < graceNow x - lastTagDetectionTime (state w)
            \<and> NFC_CHECK_INTERVAL \<le> loopNow (hd (pre @ [x])) - lastNFCCheckTime (state w)
            \<and> (\<forall>i \<in> set post. nfcTag i = None) \<longrightarrow>
          stopCommands (trace (runLoop (early @ pre @ [x]) w)) = stopCommands (trace w) + 1
          \<and> \<not> isSongPlaying (state (runLoop (early @ pre @ [x]) w))
          \<and> stopCommands (trace (runLoop (early @ pre @ x # post) w))
              = stopCommands (trace w) + 1
          \<and> playCommands (trace (runLoop (early @ pre @ x # post) w))
              = playCommands (trace w)"
  proof
    assume h: "nfcTag x = None
            \<and> TAG_GRACE_PERIOD < graceNow x - lastTagDetectionTime (state w)
            \<and> NFC_CHECK_INTERVAL \<le> loopNow (hd (pre @ [x])) - lastNFCCheckTime (state w)
            \<and> (\<forall>i \<in> set post. nfcTag i = None)"
    let ?w2 = "loopPlay x ?w1"
    have n: "nfcTag x = None" using h by simp
    have d: "\<not> isTagPresent (state ?w1)
         \<or> NFC_CHECK_INTERVAL \<le> loopNow x - lastNFCCheckTime (state ?w1)"
    proof (cases pre)
      case Nil
      thus ?thesis using h e2 by simp
    next
      case (Cons f rest)
      hence "\<not> isTagPresent (state ?w1)" using R h by simp
      thus ?thesis by simp
    qed
    have ex: "isSongPlaying (state ?w1)
           \<and> TAG_GRACE_PERIOD < graceNow x - lastTagDetectionTime (state ?w1)"
      using h g3 g6 by simp
    note s = loopPlay_gone(1,3) [OF n d] loopPlay_gone(5) [OF n d ex]
    have s1: "stopCommands (trace ?w2) = stopCommands (trace w) + 1"
      using s g1 by simp
    have s2: "playCommands (trace ?w2) = playCommands (trace w)"
      using s g2 by simp
    have np: "\<not> isSongPlaying (state ?w2)" using s by simp
    have ab: "\<forall>i \<in> set post. nfcTag i = None" using h by simp
    note t = runLoop_stopped [OF s(1) np ab]
    have r1: "runLoop (early @ pre @ [x]) w = ?w2"
      using runLoop_append [of "early @ pre" "[x]" w] by simp
    have r2: "runLoop (early @ pre @ x # post) w = runLoop post ?w2"
      using runLoop_append [of "early @ pre" "x # post" w] by simp
    show "stopCommands (trace (runLoop (early @ pre @ [x]) w)) = stopCommands (trace w) + 1
          \<and> \<not> isSongPlaying (state (runLoop (early @ pre @ [x]) w))
          \<and> stopCommands (trace (runLoop (early @ pre @ x # post) w))
              = stopCommands (trace w) + 1
          \<and> playCommands (trace (runLoop (early @ pre @ x # post) w))
              = playCommands (trace w)"
      unfolding r1 r2 using s1 s2 np t by simp
  qed
  have B: "nfcTag r = Some (uid, len) \<and> unat len \<le> length uid
            \<and> NFC_CHECK_INTERVAL
                 \<le> loopNow r - lastNFCCheckTime (state (runLoop (early @ pre) w))
            \<and> fst (readSongNumberFromTag (nfcPage r) w) = currentTrack (state w)
            \<and> currentTrack (state w) \<noteq> - 1
            \<and> (\<forall>i \<in> set held. \<exists>uid'. nfcTag i = Some (uid', len)
                  \<and> take (unat len) uid' = take (unat len) uid) \<longrightarrow>
          stopCommands (trace (runLoop (early @ pre @ r # held) w)) = stopCommands (trace w)
          \<and> playCommands (trace (runLoop (early @ pre @ r # held) w))
              = playCommands (trace w)
          \<and> isSongPlaying (state (runLoop (early @ pre @ r # held) w))
          \<and> currentTrack (state (runLoop (early @ pre @ r # held) w))
              = currentTrack (state w)"
  proof
    assume h: "nfcTag r = Some (uid, len) \<and> unat len \<le> length uid
            \<and> NFC_CHECK_INTERVAL
                 \<le> loopNow r - lastNFCCheckTime (state (runLoop (early @ pre) w))
            \<and> fst (readSongNumberFromTag (nfcPage r) w) = currentTrack (state w)
            \<and> currentTrack (state w) \<noteq> - 1
            \<and> (\<forall>i \<in> set held. \<exists>uid'. nfcTag i = Some (uid', len)
                  \<and> take (unat len) uid' = take (unat len) uid)"
    let ?w2 = "loopPlay r ?w1"
    have h1: "nfcTag r = Some (uid, len)" and h2: "unat len \<le> length uid"
      and h3: "NFC_CHECK_INTERVAL \<le> loopNow r - lastNFCCheckTime (state ?w1)"
      and h6: "\<forall>i \<in> set held. \<exists>uid'. nfcTag i = Some (uid', len)
                  \<and> take (unat len) uid' = take (unat len) uid"
      using h by simp_all
    have h4: "fst (readSongNumberFromTag (nfcPage r) ?w1) = currentTrack (state ?w1)"
      using h g4 readSong_fst_indep [of "nfcPage r" ?w1 w] by simp
    have h5: "currentTrack (state ?w1) \<noteq> - 1" using h g4 by simp
    note s = loopPlay_redetect_any [OF g3 h1 h2 h3 h4 h5]
    have p: "isTagPresent (state ?w2)"
      and u: "uidsMatch uid (lastUID (state ?w2)) len"
      using s by simp_all
    note t = runLoop_held_match [OF p u h6]
    have r2: "runLoop (early @ pre @ r # held) w = runLoop held ?w2"
      using runLoop_append [of "early @ pre" "r # held" w] by simp
    show "stopCommands (trace (runLoop (early @ pre @ r # held) w)) = stopCommands (trace w)
          \<and> playCommands (trace (runLoop (early @ pre @ r # held) w))
              = playCommands (trace w)
          \<and> isSongPlaying (state (runLoop (early @ pre @ r # held) w))
          \<and> currentTrack (state (runLoop (early @ pre @ r # held) w))
              = currentTrack (state w)"
      unfolding r2 using s t g1 g2 g4 by simp
  qed
  have C: "isTagPresent (state v) \<longrightarrow> handleGracePeriod now v = v"
    by (simp add: handleGracePeriod_def)
  show ?thesis using g1 g2 g3 g4 R A B C by blast
qed

theorem tag_removal_stops_once_witness:
  "stopCommands (trace (runLoop
      ([sampleInput 1100 None None] @ [sampleInput 1200 None None, sampleInput 3000 None None])
      tagPlaying)) = 0
   \<and> \<not> isTagPresent (state (runLoop
      ([sampleInput 1100 None None] @ [sampleInput 1200 None None, sampleInput 3000 None None])
      tagPlaying))
   \<and> stopCommands (trace (runLoop
      ([sampleInput 1100 None None] @ [sampleInput 1200 None None, sampleInput 3000 None None]
        @ [sampleInput 3001 None None])
      tagPlaying)) = 1
   \<and> stopCommands (trace (runLoop
      ([sampleInput 1100 None None] @ [sampleInput 1200 None None, sampleInput 3000 None None]
        @ sampleInput 3001 None None # [sampleInput 3500 None None])
      tagPlaying)) = 1
   \<and> stopCommands (trace (runLoop
      ([sampleInput 1100 None None] @ [sampleInput 1200 None None]
        @ sampleInput 1400 (Some (exampleUid, 7)) (Some (0x53, 0x4F, 0x4E, 7))
        # [sampleInput 1600 (Some (exampleUid, 7)) None])
      tagPlaying)) = 0
   \<and> isSongPlaying (state (runLoop
      ([sampleInput 1100 None None] @ [sampleInput 1200 None None]
        @ sampleInput 1400 (Some (exampleUid, 7)) (Some (0x53, 0x4F, 0x4E, 7))
        # [sampleInput 1600 (Some (exampleUid, 7)) None])
      tagPlaying))"
proof -
  define early where "early = [sampleInput 1100 None None]"
  define pre where "pre = [sampleInput 1200 None None, sampleInput 3000 None None]"
  define pre2 where "pre2 = [sampleInput 1200 None None]"
  define x where "x = sampleInput 3001 None None"
  define post where "post = [sampleInput 3500 None None]"
  define r where "r = sampleInput 1400 (Some (exampleUid, 7)) (Some (0x53, 0x4F, 0x4E, 7))"
  define held where "held = [sampleInput 1600 (Some (exampleUid, 7)) None]"
  note f = tagPlaying_facts
  have h3: "\<forall>i \<in> set early.
           \<not> NFC_CHECK_INTERVAL \<le> loopNow i - lastNFCCheckTime (state tagPlaying)"
    by (simp add: early_def f NFC_CHECK_INTERVAL_def)
  have h4: "\<forall>i \<in> set pre. nfcTag i = None
           \<and> graceNow i - lastTagDetectionTime (state tagPlaying) \<le> TAG_GRACE_PERIOD"
    by (simp add: pre_def f TAG_GRACE_PERIOD_def)
  have h4': "\<forall>i \<in> set pre2. nfcTag i = None
           \<and> graceNow i - lastTagDetectionTime (state tagPlaying) \<le> TAG_GRACE_PERIOD"
    by (simp add: pre2_def f TAG_GRACE_PERIOD_def)
  have p1: "pre \<noteq> []"
    and p2: "NFC_CHECK_INTERVAL \<le> loopNow (hd pre) - lastNFCCheckTime (state tagPlaying)"
    by (simp_all add: pre_def f NFC_CHECK_INTERVAL_def)
  have x1: "nfcTag x = None"
    and x2: "TAG_GRACE_PERIOD < graceNow x - lastTagDetectionTime (state tagPlaying)"
    and x3: "NFC_CHECK_INTERVAL
               \<le> loopNow (hd (pre @ [x])) - lastNFCCheckTime (state tagPlaying)"
    and x4: "\<forall>i \<in> set post. nfcTag i = None"
    by (simp_all add: x_def pre_def post_def f TAG_GRACE_PERIOD_def NFC_CHECK_INTERVAL_def)
  have lc: "lastNFCCheckTime (state (runLoop (early @ pre2) tagPlaying)) = 1200"
    by (simp add: early_def pre2_def lastNFCCheckTime_loopPlay f NFC_CHECK_INTERVAL_def)
  have r1: "nfcTag r = Some (exampleUid, 7)" and r2: "unat (7 :: u8) \<le> length exampleUid"
    by (simp_all add: r_def exampleUid_def)
  have r3: "NFC_CHECK_INTERVAL
              \<le> loopNow r - lastNFCCheckTime (state (runLoop (early @ pre2) tagPlaying))"
    unfolding lc by (simp add: r_def NFC_CHECK_INTERVAL_def)
  have r4: "fst (readSongNumberFromTag (nfcPage r) tagPlaying) = currentTrack (state tagPlaying)"
    by (simp add: r_def f readSong_Some)
  have r5: "currentTrack (state tagPlaying) \<noteq> - 1"
    by (simp add: f)
  have r6: "\<forall>i \<in> set held. \<exists>uid'. nfcTag i = Some (uid', 7)
          \<and> take (unat (7 :: u8)) uid' = take (unat (7 :: u8)) exampleUid"
    by (simp add: held_def)
  note t1 = tag_removal_stops_once [OF f(1) f(2) h3 h4, of x post]
  note t2 = tag_removal_stops_once [OF f(1) f(2) h3 h4', of _ _ r exampleUid 7 held]
  have a: "stopCommands (trace (runLoop (early @ pre) tagPlaying)) = 0"
    using t1 f(6) by simp
  have b: "\<not> isTagPresent (state (runLoop (early @ pre) tagPlaying))"
    using t1 p1 p2 by blast
  have c: "stopCommands (trace (runLoop (early @ pre @ [x]) tagPlaying)) = 1
      \<and> stopCommands (trace (runLoop (early @ pre @ x # post) tagPlaying)) = 1"
    using t1 x1 x2 x3 x4 f(6) by simp
  have d: "stopCommands (trace (runLoop (early @ pre2 @ r # held) tagPlaying)) = 0
      \<and> isSongPlaying (state (runLoop (early @ pre2 @ r # held) tagPlaying))"
    using t2 r1 r2 r3 r4 r5 r6 f(6) by simp
  have "stopCommands (trace (runLoop (early @ pre) tagPlaying)) = 0
   \<and> \<not> isTagPresent (state (runLoop (early @ pre) tagPlaying))
   \<and> stopCommands (trace (runLoop (early @ pre @ [x]) tagPlaying)) = 1
   \<and> stopCommands (trace (runLoop (early @ pre @ x # post) tagPlaying)) = 1
   \<and> stopCommands (trace (runLoop (early @ pre2 @ r # held) tagPlaying)) = 0
   \<and> isSongPlaying (state (runLoop (early @ pre2 @ r # held) tagPlaying))"
    using a b c d by blast
  thus ?thesis
    unfolding early_def pre_def pre2_def x_def post_def r_def held_def .
qed

text \<open>
  The claim as stated has no stop command whenever the tag is redetected within the grace
  period. The condition on the record cannot be dropped: from the initial state the tag
  is detected at 1000 (track 7 starts), is missing at the poll at 1200, and answers again
  at 1400, 400 ms after its last detection, but the read of its page fails. Then
  \<open>handleNewTag\<close> stops the song: one stop command within the grace period.
\<close>

theorem redetected_unreadable_tag_counterexample:
  "isSongPlaying (state (runLoop
        [sampleInput 1000 (Some (exampleUid, 7)) (Some (0x53, 0x4F, 0x4E, 7)),
         sampleInput 1200 None None] initialSys))
   \<and> \<not> isTagPresent (state (runLoop
        [sampleInput 1000 (Some (exampleUid, 7)) (Some (0x53, 0x4F, 0x4E, 7)),
         sampleInput 1200 None None] initialSys))
   \<and> stopCommands (trace (runLoop
        [sampleInput 1000 (Some (exampleUid, 7)) (Some (0x53, 0x4F, 0x4E, 7)),
         sampleInput 1200 None None] initialSys)) = 0
   \<and> 1400 - lastTagDetectionTime (state (runLoop
        [sampleInput 1000 (Some (exampleUid, 7)) (Some (0x53, 0x4F, 0x4E, 7)),
         sampleInput 1200 None None] initialSys)) \<le> TAG_GRACE_PERIOD
   \<and> stopCommands (trace (runLoop
        [sampleInput 1000 (Some (exampleUid, 7)) (Some (0x53, 0x4F, 0x4E, 7)),
         sampleInput 1200 None None,
         sampleInput 1400 (Some (exampleUid, 7)) None] initialSys)) = 1
   \<and> \<not> isSongPlaying (state (runLoop
        [sampleInput 1000 (Some (exampleUid, 7)) (Some (0x53, 0x4F, 0x4E, 7)),
         sampleInput 1200 None None,
         sampleInput 1400 (Some (exampleUid, 7)) None] initialSys))"
proof -
  define a0 where "a0 = sampleInput 1000 (Some (exampleUid, 7)) (Some (0x53, 0x4F, 0x4E, 7))"
  define a where "a = sampleInput 1200 None None"
  define b where "b = sampleInput 1400 (Some (exampleUid, 7)) None"
  define w1 where "w1 = loopPlay a tagPlaying"
  note f = tagPlaying_facts
  have w0: "loopPlay a0 initialSys = tagPlaying"
    by (simp add: tagPlaying_def a0_def)
  have a1: "nfcTag a = None" by (simp add: a_def)
  have a2: "\<not> isTagPresent (state tagPlaying)
      \<or> NFC_CHECK_INTERVAL \<le> loopNow a - lastNFCCheckTime (state tagPlaying)"
    by (simp add: a_def f NFC_CHECK_INTERVAL_def)
  have a3: "\<not> (isSongPlaying (state tagPlaying)
      \<and> TAG_GRACE_PERIOD < graceNow a - lastTagDetectionTime (state tagPlaying))"
    by (simp add: a_def f TAG_GRACE_PERIOD_def)
  note s = loopPlay_gone(1) [OF a1 a2, folded w1_def]
    loopPlay_gone(2) [OF a1 a2, folded w1_def]
    loopPlay_gone(6) [OF a1 a2 a3, folded w1_def]
  have p1: "isSongPlaying (state w1)" and s1: "stopCommands (trace w1) = 0"
    and g1: "\<not> isTagPresent (state w1)"
    using s f by simp_all
  have e1: "1400 - lastTagDetectionTime (state w1) \<le> TAG_GRACE_PERIOD"
    using s(2) f by (simp add: TAG_GRACE_PERIOD_def)
  have lc: "lastNFCCheckTime (state w1) = 1200"
    by (simp add: w1_def a_def lastNFCCheckTime_loopPlay f NFC_CHECK_INTERVAL_def)
  have b1: "nfcTag b = Some (exampleUid, 7)" and b2: "unat (7 :: u8) \<le> length exampleUid"
    by (simp_all add: b_def exampleUid_def)
  have b3: "NFC_CHECK_INTERVAL \<le> loopNow b - lastNFCCheckTime (state w1)"
    unfolding lc by (simp add: b_def NFC_CHECK_INTERVAL_def)
  have b4: "isNewTag (state w1) exampleUid 7"
    using s(1) by (simp add: isNewTag_def)
  have b5: "fst (readSongNumberFromTag (nfcPage b) w1) = - 1"
    by (simp add: b_def readSong_None)
  note t = loopPlay_new_invalid [OF b1 b2 b3 b4 b5]
  have s2: "stopCommands (trace (loopPlay b w1)) = 1"
    and p2: "\<not> isSongPlaying (state (loopPlay b w1))"
    using t p1 s1 by simp_all
  have "isSongPlaying (state (runLoop [a0, a] initialSys))
   \<and> \<not> isTagPresent (state (runLoop [a0, a] initialSys))
   \<and> stopCommands (trace (runLoop [a0, a] initialSys)) = 0
   \<and> 1400 - lastTagDetectionTime (state (runLoop [a0, a] initialSys)) \<le> TAG_GRACE_PERIOD
   \<and> stopCommands (trace (runLoop [a0, a, b] initialSys)) = 1
   \<and> \<not> isSongPlaying (state (runLoop [a0, a, b] initialSys))"
    using p1 g1 s1 e1 s2 p2 by (simp add: w0 w1_def)
  thus ?thesis
    unfolding a0_def a_def b_def .
qed

text \<open>
  Claim C10. A newly detected tag whose record cannot be read or is not valid: in the
  iteration that polls it the handler runs once (one stop command if a song was playing,
  else none), its UID and length are stored and the tag is marked present. While the
  same tag (same length, same UID bytes) answers every later poll, the handler does not
  run again and no further stop command is sent.
\<close>

theorem unreadable_tag_handled_once:
  assumes "nfcTag r = Some (uid, len)" and "unat len \<le> length uid"
    and "NFC_CHECK_INTERVAL \<le> loopNow r - lastNFCCheckTime (state w)"
    and "isNewTag (state w) uid len"
    and "case nfcPage r of None \<Rightarrow> True
         | Some (d0, d1, d2, d3) \<Rightarrow>
             \<not> (d0 = 0x53 \<and> d1 = 0x4F \<and> d2 = 0x4E \<and> 1 \<le> unat d3 \<and> unat d3 \<le> 99)"
    and "\<forall>i \<in> set ins. \<exists>uid'. nfcTag i = Some (uid', len)
          \<and> take (unat len) uid' = take (unat len) uid"
  shows "isTagPresent (state (loopPlay r w))
       \<and> take (unat len) (lastUID (state (loopPlay r w))) = take (unat len) uid
       \<and> lastUIDLength (state (loopPlay r w)) = len
       \<and> handlerRuns (trace (loopPlay r w)) = handlerRuns (trace w) + 1
       \<and> stopCommands (trace (loopPlay r w))
           = stopCommands (trace w) + (if isSongPlaying (state w) then 1 else 0)
       \<and> handlerRuns (trace (runLoop (r # ins) w)) = handlerRuns (trace w) + 1
       \<and> stopCommands (trace (runLoop (r # ins) w))
           = stopCommands (trace w) + (if isSongPlaying (state w) then 1 else 0)
       \<and> playCommands (trace (runLoop (r # ins) w)) = playCommands (trace w)"
proof -
  have f: "fst (readSongNumberFromTag (nfcPage r) w) = - 1"
    using assms(5) by (simp add: readSong_invalid_iff)
  note s = loopPlay_new_invalid [OF assms(1-4) f]
  have p: "isTagPresent (state (loopPlay r w))"
    and u: "take (unat len) (lastUID (state (loopPlay r w))) = take (unat len) uid"
    using s by simp_all
  note t = runLoop_held [OF p u assms(6)]
  show ?thesis using s t by simp
qed

theorem unreadable_tag_handled_once_witness:
  "handlerRuns (trace (runLoop
        (sampleInput 1000 (Some ([0x04, 0xA1, 0xB2, 0xC3, 0xD4, 0xE5, 0x80], 7)) None #
        [sampleInput 1200 (Some ([0x04, 0xA1, 0xB2, 0xC3, 0xD4, 0xE5, 0x80], 7)) None,
        sampleInput 1400 (Some ([0x04, 0xA1, 0xB2, 0xC3, 0xD4, 0xE5, 0x80], 7)) (Some (0, 0, 0, 0))])
        (playSong 7 initialSys))) = 1
   \<and> stopCommands (trace (runLoop
         (sampleInput 1000 (Some ([0x04, 0xA1, 0xB2, 0xC3, 0xD4, 0xE5, 0x80], 7)) None #
         [sampleInput 1200 (Some ([0x04, 0xA1, 0xB2, 0xC3, 0xD4, 0xE5, 0x80], 7)) None,
         sampleInput 1400 (Some ([0x04, 0xA1, 0xB2, 0xC3, 0xD4, 0xE5, 0x80], 7)) (Some (0, 0, 0, 0))])
         (playSong 7 initialSys))) = 1
   \<and> isTagPresent (state (loopPlay
         (sampleInput 1000 (Some ([0x04, 0xA1, 0xB2, 0xC3, 0xD4, 0xE5, 0x80], 7)) None)
         (playSong 7 initialSys)))
   \<and> lastUIDLength (state (loopPlay
         (sampleInput 1000 (Some ([0x04, 0xA1, 0xB2, 0xC3, 0xD4, 0xE5, 0x80], 7)) None)
         (playSong 7 initialSys))) = 7"
proof -
  define uidA :: "u8 list" where "uidA = [0x04, 0xA1, 0xB2, 0xC3, 0xD4, 0xE5, 0x80]"
  define w where "w = playSong 7 initialSys"
  define r where "r = sampleInput 1000 (Some (uidA, 7)) None"
  define ins where "ins = [sampleInput 1200 (Some (uidA, 7)) None,
      sampleInput 1400 (Some (uidA, 7)) (Some (0, 0, 0, 0))]"
  have a1: "nfcTag r = Some (uidA, 7)" and a2: "unat (7 :: u8) \<le> length uidA"
    by (simp_all add: r_def uidA_def)
  have a3: "NFC_CHECK_INTERVAL \<le> loopNow r - lastNFCCheckTime (state w)"
    by (simp add: r_def w_def playing7_facts NFC_CHECK_INTERVAL_def)
  have a4: "isNewTag (state w) uidA 7"
    by (simp add: isNewTag_def w_def playing7_facts)
  have a5: "case nfcPage r of None \<Rightarrow> True
         | Some (d0, d1, d2, d3) \<Rightarrow>
             \<not> (d0 = 0x53 \<and> d1 = 0x4F \<and> d2 = 0x4E \<and> 1 \<le> unat d3 \<and> unat d3 \<le> 99)"
    by (simp add: r_def)
  have a6: "\<forall>i \<in> set ins. \<exists>uid'. nfcTag i = Some (uid', 7)
          \<and> take (unat (7 :: u8)) uid' = take (unat (7 :: u8)) uidA"
    by (simp add: ins_def)
  have z: "stopCommands (trace w) = 0" "handlerRuns (trace w) = 0" "isSongPlaying (state w)"
    by (simp_all add: w_def playing7_facts)
  have "handlerRuns (trace (runLoop (r # ins) w)) = 1
   \<and> stopCommands (trace (runLoop (r # ins) w)) = 1
   \<and> isTagPresent (state (loopPlay r w))
   \<and> lastUIDLength (state (loopPlay r w)) = 7"
    using unreadable_tag_handled_once [OF a1 a2 a3 a4 a5 a6] z by simp
  thus ?thesis
    unfolding r_def ins_def w_def uidA_def .
qed

text \<open>
  Claim C7, as amended. The level starts in range (20) and is in range after every
  \<open>adjustVolume\<close>, whatever \<open>delta\<close> and whatever the level before. The new level is
  \<open>clamp(old + delta, 0, 30)\<close> whenever \<open>old + delta\<close> fits a 32-bit \<open>int\<close>, which
  covers the \<open>+1\<close> and \<open>-1\<close> the firmware passes. Each call sends exactly one volume-set
  command; its argument is the new level, at most 30. The one other volume-set command,
  in \<open>initializeDFPlayer\<close>, carries 20. So a run of the loop adds only volume-set
  commands with an argument of at most 30.
\<close>

theorem adjustVolume_clamps_without_overflow:
  "volumeInRange (currentVolume initialState)
   \<and> volumeInRange (currentVolume (state (adjustVolume delta w)))
   \<and> (- (2 ^ 31) \<le> sint (currentVolume (state w)) + sint delta
        \<and> sint (currentVolume (state w)) + sint delta < 2 ^ 31 \<longrightarrow>
      sint (currentVolume (state (adjustVolume delta w)))
        = max 0 (min 30 (sint (currentVolume (state w)) + sint delta)))
   \<and> volumeCommands (trace (adjustVolume delta w))
        = volumeCommands (trace w) @ [ucast (currentVolume (state (adjustVolume delta w)))]
   \<and> uint (ucast (currentVolume (state (adjustVolume delta w))) :: u8)
        = sint (currentVolume (state (adjustVolume delta w)))
   \<and> (ucast (currentVolume (state (adjustVolume delta w))) :: u8) \<le> 30
   \<and> initializeDFPlayer True w \<noteq> None
   \<and> volumeCommands (trace (the (initializeDFPlayer True w))) = volumeCommands (trace w) @ [20]
   \<and> ((\<forall>v \<in> set (volumeCommands (trace w)). v \<le> 30) \<longrightarrow>
        (\<forall>v \<in> set (volumeCommands (trace (runLoop ins w))). v \<le> 30))"
proof -
  let ?v = "currentVolume (state (adjustVolume delta w))"
  have rng: "volumeInRange ?v" by (rule volumeInRange_adjustVolume)
  hence r: "0 \<le> sint ?v" "sint ?v \<le> 30" by (simp_all add: volumeInRange_iff)
  have c: "- (2 ^ 31) \<le> sint (currentVolume (state w)) + sint delta
        \<and> sint (currentVolume (state w)) + sint delta < 2 ^ 31 \<longrightarrow>
      sint ?v = max 0 (min 30 (sint (currentVolume (state w)) + sint delta))"
  proof
    assume a: "- (2 ^ 31) \<le> sint (currentVolume (state w)) + sint delta
        \<and> sint (currentVolume (state w)) + sint delta < 2 ^ 31"
    have "sint (currentVolume (state w) + delta) = sint (currentVolume (state w)) + sint delta"
      using a by (intro sint_add_no_overflow) simp_all
    thus "sint ?v = max 0 (min 30 (sint (currentVolume (state w)) + sint delta))"
      unfolding sint_adjustVolume by simp
  qed
  have d: "(\<forall>v \<in> set (volumeCommands (trace w)). v \<le> 30) \<longrightarrow>
        (\<forall>v \<in> set (volumeCommands (trace (runLoop ins w))). v \<le> 30)"
    using volumesOk_runLoop [of w ins] by blast
  show ?thesis
    using initialVolume rng c volumeCommands_adjustVolume [of delta w]
      ucast_in_range [OF r] ucast_in_range_le [OF r] initializeDFPlayer_volume [of w] d
    by simp
qed

theorem adjustVolume_clamps_without_overflow_witness:
  "sint (currentVolume (state (adjustVolume 1 initialSys))) = 21
   \<and> volumeCommands (trace (adjustVolume 1 initialSys)) = [21]
   \<and> sint (currentVolume (state (adjustVolume (- 25) initialSys))) = 0
   \<and> volumeCommands (trace (adjustVolume (- 25) initialSys)) = [0]
   \<and> sint (currentVolume (state (adjustVolume 11 initialSys))) = 30
   \<and> volumeCommands (trace (adjustVolume 11 initialSys)) = [30]"
proof -
  have a: "sint (currentVolume (state (adjustVolume 1 initialSys))) = 21"
    and b: "volumeCommands (trace (adjustVolume 1 initialSys))
              = [ucast (currentVolume (state (adjustVolume 1 initialSys)))]"
    and c: "uint (ucast (currentVolume (state (adjustVolume 1 initialSys))) :: u8)
              = sint (currentVolume (state (adjustVolume 1 initialSys)))"
    using adjustVolume_clamps_without_overflow [of 1 initialSys]
    by (simp_all add: initial_facts)
  have a2: "sint (currentVolume (state (adjustVolume (- 25) initialSys))) = 0"
    and b2: "volumeCommands (trace (adjustVolume (- 25) initialSys))
              = [ucast (currentVolume (state (adjustVolume (- 25) initialSys)))]"
    and c2: "uint (ucast (currentVolume (state (adjustVolume (- 25) initialSys))) :: u8)
              = sint (currentVolume (state (adjustVolume (- 25) initialSys)))"
    using adjustVolume_clamps_without_overflow [of "- 25" initialSys]
    by (simp_all add: initial_facts)
  have a3: "sint (currentVolume (state (adjustVolume 11 initialSys))) = 30"
    and b3: "volumeCommands (trace (adjustVolume 11 initialSys))
              = [ucast (currentVolume (state (adjustVolume 11 initialSys)))]"
    and c3: "uint (ucast (currentVolume (state (adjustVolume 11 initialSys))) :: u8)
              = sint (currentVolume (state (adjustVolume 11 initialSys)))"
    using adjustVolume_clamps_without_overflow [of 11 initialSys]
    by (simp_all add: initial_facts)
  have u: "\<And>x :: u8. uint x = 21 \<Longrightarrow> x = 21" "\<And>x :: u8. uint x = 0 \<Longrightarrow> x = 0"
    "\<And>x :: u8. uint x = 30 \<Longrightarrow> x = 30"
    by (simp_all add: word_uint_eq_iff)
  show ?thesis
    using a b c a2 b2 c2 a3 b3 c3 u by simp
qed

text \<open>
  The claim as stated, for every \<open>int\<close> \<open>delta\<close>, fails where the sum leaves the range
  of \<open>int\<close>: at level 20 and \<open>delta = INT_MAX\<close> the sum wraps to a negative number and
  the level becomes 0, where \<open>clamp(20 + INT_MAX, 0, 30)\<close> is 30.
\<close>

theorem adjustVolume_overflow_counterexample:
  "sint (currentVolume (state (adjustVolume 2147483647 initialSys))) = 0
   \<and> max 0 (min 30 (sint (currentVolume (state initialSys)) + sint (2147483647 :: cint))) = 30"
  using adjustVolume_at_int_max clamp_at_int_max by simp

end
